theory Spec2Isabelle
  imports Complex_Main "HOL-Library.Word"
begin

section \<open>Viewer: the dashboard script\<close>

text \<open>
  The dashboard script exists in two drafts: \<^verbatim>\<open>src/frontend/script.js\<close> (render only) and
  \<^verbatim>\<open>src/unnamed/part_000\<close> (the same script, extended by the threat popup). Both are
  embedded below. JavaScript runs every synchronous function to completion, so each
  function is one state transformer on the page.

  Strings are \<^typ>\<open>string\<close>, read as sequences of code units below 256. Device fields
  are taken to be plain text (no markup, see \<open>plain_text\<close> below): interpolating such a field
  into \<^verbatim>\<open>innerHTML\<close> yields a text node with that text. Reading it back with \<^verbatim>\<open>innerText\<close>
  gives the text as rendered, with white space collapsed (see \<open>innerText\<close> below).
\<close>

subsection \<open>JavaScript string primitives\<close>

text \<open>The white space removed by \<^verbatim>\<open>String.prototype.trim\<close>: TAB, LF, VT, FF, CR, SP, NBSP.\<close>

definition is_ws :: "char \<Rightarrow> bool" where
  "is_ws c = (c \<in> set [CHR 0x09, CHR 0x0A, CHR 0x0B, CHR 0x0C, CHR 0x0D, CHR 0x20, CHR 0xA0])"

definition js_trim :: "string \<Rightarrow> string" where
  "js_trim s = rev (dropWhile is_ws (rev (dropWhile is_ws s)))"

text \<open>
  \<^verbatim>\<open>innerText\<close> of a rendered paragraph that holds one text node, under the default
  \<^verbatim>\<open>white-space: normal\<close> (the style sheet is not part of the sources): every run of
  collapsible white space (TAB, LF, SP, and CR, which the parser turns into LF) becomes one
  space, and the space at the start and at the end of the paragraph is dropped. The flag of
  \<open>collapse_ws\<close> says that the previous character was collapsible white space (or that the
  paragraph starts here).
\<close>

definition collapsible :: "char \<Rightarrow> bool" where
  "collapsible c = (c \<in> set [CHR 0x09, CHR 0x0A, CHR 0x0D, CHR 0x20])"

fun collapse_ws :: "bool \<Rightarrow> string \<Rightarrow> string" where
  "collapse_ws prev [] = []"
| "collapse_ws prev (c # cs) =
     (if collapsible c
      then (if prev then collapse_ws True cs else CHR '' '' # collapse_ws True cs)
      else c # collapse_ws False cs)"

definition strip_trailing_space :: "string \<Rightarrow> string" where
  "strip_trailing_space s = (if s \<noteq> [] \<and> last s = CHR '' '' then butlast s else s)"

definition innerText :: "string \<Rightarrow> string" where
  "innerText s = strip_trailing_space (collapse_ws True s)"

text \<open>
  A field is plain text when the parser of \<^verbatim>\<open>innerHTML\<close> reads it as text and nothing else: no
  tag, no character reference, no NUL.
\<close>

definition plain_text :: "string \<Rightarrow> bool" where
  "plain_text s = (CHR ''<'' \<notin> set s \<and> CHR ''&'' \<notin> set s \<and> CHR 0x00 \<notin> set s)"

text \<open>
  Canonicalisation of a character under the \<^verbatim>\<open>i\<close> flag (no \<^verbatim>\<open>u\<close> flag): upper-casing.
  Only the image of the ASCII letters matters for an ASCII pattern, since a character
  outside ASCII never canonicalises to an ASCII one.
\<close>

definition to_upper :: "char \<Rightarrow> char" where
  "to_upper c =
     (case map_of (zip ''abcdefghijklmnopqrstuvwxyz'' ''ABCDEFGHIJKLMNOPQRSTUVWXYZ'') c of
        None \<Rightarrow> c
      | Some u \<Rightarrow> u)"

text \<open>An anchored literal pattern \<^verbatim>\<open>/^lit$/i\<close>: every character must match, none may be left.\<close>

fun regex_anchored_ci :: "string \<Rightarrow> string \<Rightarrow> bool" where
  "regex_anchored_ci [] [] = True"
| "regex_anchored_ci (p # ps) (c # cs) = (to_upper p = to_upper c \<and> regex_anchored_ci ps cs)"
| "regex_anchored_ci _ _ = False"

text \<open>\<^verbatim>\<open>/^Threat Detected$/i.test(txt)\<close>\<close>

definition threat_regex_test :: "string \<Rightarrow> bool" where
  "threat_regex_test txt = regex_anchored_ci ''Threat Detected'' txt"

text \<open>A number interpolated into a template literal: its decimal digits.\<close>

definition digit :: "nat \<Rightarrow> char" where
  "digit d = ''0123456789'' ! d"

fun dec :: "nat \<Rightarrow> string" where
  "dec n = (if n < 10 then [digit n] else dec (n div 10) @ [digit (n mod 10)])"

subsection \<open>Device records, the page and the fetch outcome\<close>

record device =
  dev_id :: int
  name :: string
  dtype :: string
  power :: bool
  data :: string
  location :: string
  last_seen :: string
  threat :: string

text \<open>One rendered card of \<^verbatim>\<open>#device-grid\<close>; the fields are the interpolated parts of the template.\<close>

record card =
  c_name :: string
  c_statusClass :: string
  c_status :: string
  c_type :: string
  c_data :: string
  c_threatClass :: string
  c_threat :: string
  c_location :: string
  c_last_seen :: string
  c_power :: string
  c_button :: string
  c_id :: int

text \<open>An element with id \<^verbatim>\<open>threat-popup\<close>; its heading is fixed, \<open>sub\<close> is the text of the span.\<close>

record popup =
  sub :: string

datatype callback = FetchAndRender | ScanDomForThreat

datatype sock_event = Connect | ConnectError | DeviceUpdate

text \<open>
  The page state the script reads and writes: the \<^verbatim>\<open>innerHTML\<close> of \<^verbatim>\<open>#status-summary\<close>, the
  children of \<^verbatim>\<open>#device-grid\<close>, the elements with id \<^verbatim>\<open>threat-popup\<close> in document order,
  the console, the timers installed by \<^verbatim>\<open>setInterval\<close> (callback, period in ms) and the
  socket events that have a handler.
\<close>

record page =
  summary :: string
  grid :: "card list"
  popups :: "popup list"
  console :: "string list"
  timers :: "(callback \<times> nat) list"
  listeners :: "sock_event list"

text \<open>
  What \<^verbatim>\<open>await fetch(...)\<close> and \<^verbatim>\<open>await response.json()\<close> deliver: the fetch rejects, the
  body does not decode, the decoded value is no array (then \<^verbatim>\<open>devices.forEach\<close> throws), or
  it is the device collection.
\<close>

datatype response = FetchRejected | JsonRejected | NotAnArray | Devices "device list"

subsection \<open>renderSummary\<close>

fun count_device :: "nat \<times> nat \<times> nat \<Rightarrow> device \<Rightarrow> nat \<times> nat \<times> nat" where
  "count_device (online, offline, threats) d =
     (if power d then online + 1 else online,
      if power d then offline else offline + 1,
      if threat d = ''Threat Detected'' then threats + 1 else threats)"

definition count_devices :: "device list \<Rightarrow> nat \<times> nat \<times> nat" where
  "count_devices devices = foldl count_device (0, 0, 0) devices"

definition summary_html :: "nat \<times> nat \<times> nat \<Rightarrow> string" where
  \<open>summary_html c = (case c of (online, offline, threats) \<Rightarrow>
     [CHR 0x0A] @ ''    <span class="badge bg-success me-2">'' @ dec online @ '' Online</span>'' @
     [CHR 0x0A] @ ''    <span class="badge bg-secondary me-2">'' @ dec offline @ '' Offline</span>'' @
     [CHR 0x0A] @ ''    <span class="badge bg-danger">'' @ dec threats @ '' Threat Detected</span>'' @
     [CHR 0x0A] @ ''  '')\<close>

definition renderSummary :: "device list \<Rightarrow> page \<Rightarrow> page" where
  "renderSummary devices p = p\<lparr>summary := summary_html (count_devices devices)\<rparr>"

subsection \<open>The popup helpers and the scan (part_000)\<close>

definition removePopup :: "page \<Rightarrow> page" where
  "removePopup p = (case popups p of [] \<Rightarrow> p | ex # rest \<Rightarrow> p\<lparr>popups := rest\<rparr>)"

definition createPopup :: "string \<Rightarrow> page \<Rightarrow> page" where
  "createPopup text p =
     (let p1 = removePopup p;
          el = \<lparr>sub = (if text = [] then ''Potential malicious activity detected'' else text)\<rparr>
      in p1\<lparr>popups := popups p1 @ [el]\<rparr>)"

text \<open>\<^verbatim>\<open>querySelectorAll('#device-grid .threat')\<close>: in a card only the threat paragraph can carry
  the class \<^verbatim>\<open>threat\<close>; the result is the \<^verbatim>\<open>innerText\<close> of each such node, in document order.\<close>

definition threatNodes :: "page \<Rightarrow> string list" where
  "threatNodes p =
     map (\<lambda>c. innerText (c_threat c)) (filter (\<lambda>c. c_threatClass c = ''threat'') (grid p))"

fun threat_loop :: "string list \<Rightarrow> bool" where
  "threat_loop [] = False"
| "threat_loop (node_text # nodes) =
     (if threat_regex_test (js_trim node_text) then True else threat_loop nodes)"

definition existsThreatDetectedInCards :: "page \<Rightarrow> bool" where
  "existsThreatDetectedInCards p = threat_loop (threatNodes p)"

definition scanDomForThreat :: "page \<Rightarrow> page" where
  "scanDomForThreat p = (if existsThreatDetectedInCards p then createPopup [] p else removePopup p)"

subsection \<open>fetchAndRender\<close>

definition render_card :: "device \<Rightarrow> card" where
  "render_card device =
     (let isPowerOn = power device;
          status = (if isPowerOn then ''Online'' else ''Offline'');
          statusClass = (if isPowerOn then ''bg-success'' else ''bg-secondary'');
          threatClass = (if threat device = ''No Threat'' then ''no-threat'' else ''threat'')
      in \<lparr>c_name = name device, c_statusClass = statusClass, c_status = status,
          c_type = dtype device, c_data = data device, c_threatClass = threatClass,
          c_threat = threat device, c_location = location device,
          c_last_seen = last_seen device,
          c_power = (if isPowerOn then ''ON'' else ''OFF''),
          c_button = (if isPowerOn then ''Turn Off'' else ''Turn On''),
          c_id = dev_id device\<rparr>)"

text \<open>\<^verbatim>\<open>deviceGrid.innerHTML = ""\<close>, then one \<^verbatim>\<open>appendChild\<close> per device.\<close>

definition render_grid :: "device list \<Rightarrow> page \<Rightarrow> page" where
  "render_grid devices p =
     foldl (\<lambda>q device. q\<lparr>grid := grid q @ [render_card device]\<rparr>) (p\<lparr>grid := []\<rparr>) devices"

definition log_fetch_failure :: "page \<Rightarrow> page" where
  "log_fetch_failure p = p\<lparr>console := console p @ [''Failed to fetch devices:'']\<rparr>"

text \<open>part_000: render, then scan. Every failure is thrown before the first write to the
  page and is caught by the \<^verbatim>\<open>catch\<close> block, which only logs.\<close>

definition fetchAndRender :: "response \<Rightarrow> page \<Rightarrow> page" where
  "fetchAndRender r p =
     (case r of
        Devices devices \<Rightarrow> scanDomForThreat (render_grid devices (renderSummary devices p))
      | _ \<Rightarrow> log_fetch_failure p)"

text \<open>frontend/script.js: the same function without the scan.\<close>

definition fetchAndRender_script :: "response \<Rightarrow> page \<Rightarrow> page" where
  "fetchAndRender_script r p =
     (case r of
        Devices devices \<Rightarrow> render_grid devices (renderSummary devices p)
      | _ \<Rightarrow> log_fetch_failure p)"

subsection \<open>Socket initialisation and the events of a page\<close>

text \<open>The call \<^verbatim>\<open>io(...)\<close> either throws (the library is not loaded) or returns a socket.\<close>

datatype io_outcome = IoThrows | IoSocket

definition socket_init :: "io_outcome \<Rightarrow> page \<Rightarrow> page" where
  "socket_init io p =
     (case io of
        IoSocket \<Rightarrow> p\<lparr>listeners := listeners p @ [Connect, ConnectError, DeviceUpdate]\<rparr>
      | IoThrows \<Rightarrow>
          p\<lparr>console := console p @ [''Socket.IO init failed (fallback to polling):''],
            timers := timers p @ [(FetchAndRender, 3000)]\<rparr>)"

text \<open>The three handlers; the response is the outcome of the fetch that a
  \<^verbatim>\<open>device_update\<close> starts.\<close>

definition on_socket :: "sock_event \<Rightarrow> response \<Rightarrow> page \<Rightarrow> page" where
  "on_socket ev r p =
     (if ev \<notin> set (listeners p) then p
      else case ev of
        Connect \<Rightarrow> p\<lparr>console := console p @ [''Socket connected:'']\<rparr>
      | ConnectError \<Rightarrow> p\<lparr>console := console p @ [''Socket connect_error:'']\<rparr>
      | DeviceUpdate \<Rightarrow> fetchAndRender r (p\<lparr>console := console p @ [''Real-time update:'']\<rparr>))"

text \<open>
  Everything that can run on the page after start-up: a refresh completing (initial load,
  user action), a socket event, a timer firing, the scan (mutation observer, load event) and
  the two helpers exposed on \<^verbatim>\<open>window\<close>.
\<close>

datatype event =
    Refresh response
  | Socket sock_event response
  | Timer callback response
  | Scan
  | TriggerThreatPopupForTest string
  | RemoveThreatPopup

fun step :: "page \<Rightarrow> event \<Rightarrow> page" where
  "step p (Refresh r) = fetchAndRender r p"
| "step p (Socket ev r) = on_socket ev r p"
| "step p (Timer cb r) =
     (if cb \<notin> fst ` set (timers p) then p
      else case cb of FetchAndRender \<Rightarrow> fetchAndRender r p | ScanDomForThreat \<Rightarrow> scanDomForThreat p)"
| "step p Scan = scanDomForThreat p"
| "step p (TriggerThreatPopupForTest msg) =
     createPopup (if msg = [] then ''Simulated threat for testing'' else msg) p"
| "step p RemoveThreatPopup = removePopup p"

definition run :: "page \<Rightarrow> event list \<Rightarrow> page" where
  "run p es = foldl step p es"

section \<open>Edge client: the ESP8266 sketch\<close>

text \<open>
  The sketch exists in two drafts: \<^verbatim>\<open>src/unnamed/part_001\<close> and \<^verbatim>\<open>src/unnamed/part_002\<close>.
  They differ in \<^verbatim>\<open>getIsoTimestamp\<close> (and in the OTA calls of part_002, which touch none of
  the state below); everything else is the same text.

  \<^verbatim>\<open>unsigned long\<close> is a 32-bit word. The device's uptime is a natural number of
  milliseconds; \<^verbatim>\<open>millis()\<close> is its low 32 bits. Time passes in \<^verbatim>\<open>delay\<close>, and between two
  iterations of \<^verbatim>\<open>loop\<close> (the action \<open>Elapse\<close> below).
\<close>

type_synonym ulong = "32 word"

datatype draft = Part001 | Part002

datatype cfloat = NaN | Num real

fun isnan :: "cfloat \<Rightarrow> bool" where
  "isnan NaN = True"
| "isnan (Num x) = False"

text \<open>
  What the sketch reads from outside, as functions of the uptime: the wall clock
  \<^verbatim>\<open>time(nullptr)\<close>, whether \<^verbatim>\<open>WiFi.status()\<close> is \<^verbatim>\<open>WL_CONNECTED\<close>, the two sensor readings,
  the result of \<^verbatim>\<open>http.begin\<close> and of \<^verbatim>\<open>http.POST\<close>. The two library formatters the sketch
  calls are parameters as well: \<open>iso_utc\<close> is \<^verbatim>\<open>gmtime_r\<close> followed by
  \<^verbatim>\<open>strftime("%Y-%m-%dT%H:%M:%S")\<close>, \<open>float_str\<close> is \<^verbatim>\<open>String(x, 2)\<close>.
\<close>

record world =
  wall :: "nat \<Rightarrow> int"
  wifi :: "nat \<Rightarrow> bool"
  humidity :: "nat \<Rightarrow> cfloat"
  temperature :: "nat \<Rightarrow> cfloat"
  http_begin :: "nat \<Rightarrow> bool"
  http_post :: "nat \<Rightarrow> string \<Rightarrow> int"
  iso_utc :: "int \<Rightarrow> string"
  float_str :: "cfloat \<Rightarrow> string"

datatype caller = BySetup | ByReconnect

text \<open>
  The sketch's globals \<open>lastWifiAttempt\<close> and \<open>lastSend\<close>, the uptime, and what the sketch
  did: every call of \<^verbatim>\<open>WiFi.begin\<close> with its caller and uptime (newest first), every body
  handed to \<^verbatim>\<open>http.POST\<close>, and the fixed text of every write to \<^verbatim>\<open>Serial\<close> (\<^verbatim>\<open>print\<close> and
  \<^verbatim>\<open>println\<close> alike; values printed after the text, such as the IP address, are left out).
\<close>

record edge =
  uptime :: nat
  lastWifiAttempt :: ulong
  lastSend :: ulong
  begins :: "(caller \<times> nat) list"
  posts :: "string list"
  serial :: "string list"

definition WIFI_RECONNECT_INTERVAL_MS :: ulong where
  "WIFI_RECONNECT_INTERVAL_MS = 5000"

definition SEND_INTERVAL_MS :: ulong where
  "SEND_INTERVAL_MS = 5000"

definition DEVICE_ID :: nat where
  "DEVICE_ID = 1"

definition millis :: "edge \<Rightarrow> ulong" where
  "millis s = word_of_nat (uptime s)"

definition delay :: "nat \<Rightarrow> edge \<Rightarrow> edge" where
  "delay d s = s\<lparr>uptime := uptime s + d\<rparr>"

definition println :: "string \<Rightarrow> edge \<Rightarrow> edge" where
  "println l s = s\<lparr>serial := serial s @ [l]\<rparr>"

definition boot :: "nat \<Rightarrow> edge" where
  "boot t0 = \<lparr>uptime = t0, lastWifiAttempt = 0, lastSend = 0, begins = [], posts = [], serial = []\<rparr>"

subsection \<open>setupWiFi and setup\<close>

text \<open>The loop \<^verbatim>\<open>while (WiFi.status() != WL_CONNECTED) { delay(150); ...; if (millis() - start > 10000) break; }\<close>\<close>

function setupWiFi_wait :: "world \<Rightarrow> ulong \<Rightarrow> edge \<Rightarrow> edge" where
  "setupWiFi_wait w start s =
     (if wifi w (uptime s) then s
      else (let s1 = println ''.'' (delay 150 s)
            in if millis s1 - start > 10000 then s1 else setupWiFi_wait w start s1))"
  by pat_completeness auto
termination
proof (relation "measure (\<lambda>(w, start, s). unat (10001 - (millis s - start)))", goal_cases)
  case 1
  show ?case by simp
next
  case (2 w start s s1)
  define a' where "a' = millis s1 - start"
  define b where "b = 10001 - a'"
  have eq: "a' = (millis s - start) + 150"
    using 2(2) by (simp add: a'_def millis_def delay_def println_def)
  have "a' \<le> 10000"
    using 2(3) by (simp add: a'_def)
  then have le: "a' \<le> 10001"
    by (simp add: word_le_nat_alt)
  have ub: "unat b \<le> 10001"
    unfolding b_def using unat_sub [OF le] by simp
  have e: "10001 - (millis s - start) = b + 150"
    by (simp add: b_def eq)
  have "unat (b + 150) = unat b + unat (150 :: ulong)"
    by (rule unat_add_lem [THEN iffD1]) (use ub in simp)
  then have "unat (10001 - (millis s - start)) = unat b + 150"
    by (simp add: e)
  then have "unat (10001 - (millis s1 - start)) < unat (10001 - (millis s - start))"
    unfolding b_def a'_def by linarith
  then show ?case by simp
qed

declare setupWiFi_wait.simps [simp del]

definition setupWiFi :: "world \<Rightarrow> edge \<Rightarrow> edge" where
  "setupWiFi w s =
     (let s1 = s\<lparr>begins := (BySetup, uptime s) # begins s\<rparr>;
          s2 = println ''Connecting to WiFi'' s1;
          start = millis s2;
          s3 = setupWiFi_wait w start s2
      in if wifi w (uptime s3) then println ''WiFi connected, IP: '' (println [] s3)
         else println ''WiFi connect attempt timed out.'' (println [] s3))"

text \<open>The sketch's \<^verbatim>\<open>setup()\<close>: the banner, \<^verbatim>\<open>setupWiFi\<close>, and in part_002 \<^verbatim>\<open>setupOTA\<close>, which
  prints one line. Its other calls (\<^verbatim>\<open>Serial.begin\<close>, \<^verbatim>\<open>dht.begin\<close>, \<^verbatim>\<open>ArduinoOTA\<close>, \<^verbatim>\<open>setupTime\<close>)
  change none of the state above; what \<^verbatim>\<open>configTime\<close> starts is part of the world's wall
  clock.\<close>

definition setup_sketch :: "draft \<Rightarrow> world \<Rightarrow> edge \<Rightarrow> edge" where
  "setup_sketch dr w s =
     (let s1 = println ([CHR 0x0A] @ ''Starting ESP Weather Node'') s;
          s2 = setupWiFi w s1
      in case dr of Part001 \<Rightarrow> s2 | Part002 \<Rightarrow> println ''OTA ready'' s2)"

subsection \<open>getIsoTimestamp\<close>

text \<open>\<^verbatim>\<open>%02lu\<close>: at least two digits, padded with zeros.\<close>

definition pad2 :: "nat \<Rightarrow> string" where
  "pad2 n = (if n < 10 then CHR ''0'' # dec n else dec n)"

text \<open>part_001: the loop \<^verbatim>\<open>while (millis() - start < 2000) { delay(200); now = time(nullptr); if (now > 1000) break; }\<close>\<close>

function ntp_wait :: "world \<Rightarrow> ulong \<Rightarrow> int \<Rightarrow> edge \<Rightarrow> int \<times> edge" where
  "ntp_wait w start now s =
     (if millis s - start < 2000
      then (let s1 = delay 200 s; now1 = wall w (uptime s1)
            in if now1 > 1000 then (now1, s1) else ntp_wait w start now1 s1)
      else (now, s))"
  by pat_completeness auto
termination
proof (relation "measure (\<lambda>(w, start, now, s). 2000 - unat (millis s - start))", goal_cases)
  case 1
  show ?case by simp
next
  case (2 w start now s s1 now1)
  define a where "a = millis s - start"
  have eq: "millis s1 - start = a + 200"
    using 2(2) by (simp add: a_def millis_def delay_def)
  have ua: "unat a < 2000"
    using 2(1) by (simp add: a_def word_less_nat_alt)
  have "unat (a + 200) = unat a + unat (200 :: ulong)"
    by (rule unat_add_lem [THEN iffD1]) (use ua in simp)
  then have "2000 - unat (millis s1 - start) < 2000 - unat (millis s - start)"
    using ua unfolding eq by (simp add: a_def)
  then show ?case by simp
qed

declare ntp_wait.simps [simp del]

text \<open>\<^verbatim>\<open>snprintf(buf_fb, sizeof(buf_fb), "1970-01-01T%02lu:%02lu:%02lu", hh, mm, ss)\<close>: the
  buffer of 32 bytes holds at most 31 characters.\<close>

definition snprintf_fb :: "ulong \<Rightarrow> ulong \<Rightarrow> ulong \<Rightarrow> string" where
  "snprintf_fb hh mm ss =
     take 31 (''1970-01-01T'' @ pad2 (unat hh) @ '':'' @ pad2 (unat mm) @ '':'' @ pad2 (unat ss))"

text \<open>part_001, lines 58 to 91.\<close>

definition getIsoTimestamp :: "world \<Rightarrow> edge \<Rightarrow> string \<times> edge" where
  "getIsoTimestamp w s =
     (let now0 = wall w (uptime s);
          (now, s1) = (if now0 \<le> 1000 then ntp_wait w (millis s) now0 s else (now0, s))
      in if now \<le> 1000
         then (let ms = millis s1;
                   sec = ms div 1000;
                   hh = (sec div 3600) mod 24;
                   mm = (sec div 60) mod 60;
                   ss = sec mod 60
               in (snprintf_fb hh mm ss, s1))
         else (iso_utc w now, s1))"

text \<open>part_002, lines 56 to 65: \<^verbatim>\<open>if (now <= 1000) return String(millis());\<close>\<close>

definition getIsoTimestamp_part002 :: "world \<Rightarrow> edge \<Rightarrow> string \<times> edge" where
  "getIsoTimestamp_part002 w s =
     (let now = wall w (uptime s)
      in if now \<le> 1000 then (dec (unat (millis s)), s) else (iso_utc w now, s))"

fun getIsoTimestamp_of :: "draft \<Rightarrow> world \<Rightarrow> edge \<Rightarrow> string \<times> edge" where
  "getIsoTimestamp_of Part001 = getIsoTimestamp"
| "getIsoTimestamp_of Part002 = getIsoTimestamp_part002"

text \<open>The layout \<^verbatim>\<open>YYYY-MM-DDTHH:MM:SS\<close>: in the pattern, \<open>d\<close> stands for a decimal digit and
  every other character for itself.\<close>

definition is_digit :: "char \<Rightarrow> bool" where
  "is_digit c = (c \<in> set ''0123456789'')"

fun shape_match :: "string \<Rightarrow> string \<Rightarrow> bool" where
  "shape_match [] [] = True"
| "shape_match (p # ps) (c # cs) =
     ((if p = CHR ''d'' then is_digit c else c = p) \<and> shape_match ps cs)"
| "shape_match _ _ = False"

definition iso_shape :: "string \<Rightarrow> bool" where
  "iso_shape s = shape_match ''dddd-dd-ddTdd:dd:dd'' s"

subsection \<open>reconnectIfNeeded, sendSensorData and loop\<close>

definition reconnectIfNeeded :: "world \<Rightarrow> edge \<Rightarrow> edge" where
  "reconnectIfNeeded w s =
     (if wifi w (uptime s) then s
      else (let now = millis s
            in if now - lastWifiAttempt s < WIFI_RECONNECT_INTERVAL_MS then s
               else (println ''WiFi dropped. Reconnecting...'' (s\<lparr>lastWifiAttempt := now\<rparr>))
                      \<lparr>begins := (ByReconnect, uptime s) # begins s\<rparr>))"

definition json_body :: "world \<Rightarrow> string \<Rightarrow> cfloat \<Rightarrow> cfloat \<Rightarrow> string" where
  \<open>json_body w timestamp t h =
     ''{'' @ ''"device_id": '' @ dec DEVICE_ID @ '','' @
     ''"timestamp": "'' @ timestamp @ ''",'' @
     ''"temperature": '' @ float_str w t @ '','' @
     ''"humidity": '' @ float_str w h @ '','' @
     ''"motion": 0'' @ ''}''\<close>

text \<open>Of the two \<^verbatim>\<open>Serial.printf\<close> lines after the POST only the fixed prefix and the status
  code are kept.\<close>

definition sendSensorData :: "draft \<Rightarrow> world \<Rightarrow> edge \<Rightarrow> edge" where
  "sendSensorData dr w s =
     (let h = humidity w (uptime s);
          t = temperature w (uptime s)
      in if isnan h \<or> isnan t then println ''DHT read failed.'' s
         else (let (timestamp, s1) = getIsoTimestamp_of dr w s;
                   json = json_body w timestamp t h;
                   s2 = println (''Sending JSON:'' @ [CHR 0x0A] @ json) s1
               in if http_begin w (uptime s2)
                  then (let code = http_post w (uptime s2) json;
                            s3 = s2\<lparr>posts := posts s2 @ [json]\<rparr>
                        in if code > 0 then println (''HTTP '' @ dec (nat code)) s3
                           else println ''POST failed: '' s3)
                  else println ''HTTP begin() FAILED'' s2))"

definition loop :: "draft \<Rightarrow> world \<Rightarrow> edge \<Rightarrow> edge" where
  "loop dr w s =
     (let s1 = reconnectIfNeeded w s;
          now = millis s1;
          s2 = (if now - lastSend s1 \<ge> SEND_INTERVAL_MS
                then (let s' = s1\<lparr>lastSend := now\<rparr>
                      in if wifi w (uptime s') then sendSensorData dr w s'
                         else println ''WiFi not connected. Skipping.'' s')
                else s1)
      in delay 10 s2)"

text \<open>An execution after \<^verbatim>\<open>setup()\<close>: iterations of \<open>loop\<close>, with time passing in between.\<close>

datatype action = Tick | Elapse nat

fun act :: "draft \<Rightarrow> world \<Rightarrow> edge \<Rightarrow> action \<Rightarrow> edge" where
  "act dr w s Tick = loop dr w s"
| "act dr w s (Elapse d) = delay d s"

definition exec :: "draft \<Rightarrow> world \<Rightarrow> edge \<Rightarrow> action list \<Rightarrow> edge" where
  "exec dr w s as = foldl (act dr w) s as"

text \<open>The uptimes of the connection attempts made by \<open>reconnectIfNeeded\<close>, newest first, and
  of all attempts.\<close>

definition reconnect_times :: "edge \<Rightarrow> nat list" where
  "reconnect_times s = map snd (filter (\<lambda>b. fst b = ByReconnect) (begins s))"

definition attempt_times :: "edge \<Rightarrow> nat list" where
  "attempt_times s = map snd (begins s)"

text \<open>Any two entries of a list of times (newest first) are at least \<open>d\<close> apart.\<close>

fun spaced :: "nat \<Rightarrow> nat list \<Rightarrow> bool" where
  "spaced d [] = True"
| "spaced d (a # r) = (list_all (\<lambda>b. b + d \<le> a) r \<and> spaced d r)"

section \<open>Auxiliary predicates and example inputs\<close>

definition example_page :: page where
  "example_page = \<lparr>summary = [], grid = [], popups = [], console = [], timers = [], listeners = []\<rparr>"

definition example_device :: "int \<Rightarrow> string \<Rightarrow> device" where
  "example_device i th = \<lparr>dev_id = i, name = ''New Sensor'', dtype = ''Generic Sensor'', power = True,
     data = ''-'', location = ''-'', last_seen = ''-'', threat = th\<rparr>"

definition at_most_one_popup :: "page \<Rightarrow> bool" where
  "at_most_one_popup p \<longleftrightarrow> length (popups p) \<le> 1"

definition default_popup :: popup where
  "default_popup = \<lparr>sub = ''Potential malicious activity detected''\<rparr>"

text \<open>A device all of whose interpolated text fields are plain text.\<close>

definition plain_device :: "device \<Rightarrow> bool" where
  "plain_device d \<longleftrightarrow>
     plain_text (name d) \<and> plain_text (dtype d) \<and> plain_text (data d)
     \<and> plain_text (location d) \<and> plain_text (last_seen d) \<and> plain_text (threat d)"

text \<open>The page after the render phase of a refresh, before the scan.\<close>

definition rendered :: "device list \<Rightarrow> page \<Rightarrow> page" where
  "rendered ds p = p\<lparr>summary := summary_html (count_devices ds), grid := map render_card ds\<rparr>"

text \<open>The outcomes of a refresh in which the fetch or the decoding fails.\<close>

definition fetch_failed :: "response \<Rightarrow> bool" where
  "fetch_failed r = (case r of Devices ds \<Rightarrow> False | _ \<Rightarrow> True)"

text \<open>The invariant behind the backoff: the attempts of \<open>reconnectIfNeeded\<close> so far are
  spaced, none lies in the future, none was made before the interval had passed since boot,
  and \<open>lastWifiAttempt\<close> is the newest of them (or still 0).\<close>

definition backoff_inv :: "edge \<Rightarrow> bool" where
  "backoff_inv s \<longleftrightarrow>
     spaced (unat WIFI_RECONNECT_INTERVAL_MS) (reconnect_times s)
     \<and> list_all (\<lambda>t. t \<le> uptime s) (reconnect_times s)
     \<and> list_all (\<lambda>t. unat WIFI_RECONNECT_INTERVAL_MS \<le> t) (reconnect_times s)
     \<and> lastWifiAttempt s = (case reconnect_times s of [] \<Rightarrow> 0 | t # r \<Rightarrow> word_of_nat t)"

text \<open>The fallback timestamp in the words of the specification: the fixed date, then hours,
  minutes and seconds of the uptime (as \<^verbatim>\<open>millis()\<close> reports it) in seconds.\<close>

definition fallback_timestamp :: "nat \<Rightarrow> string" where
  "fallback_timestamp up =
     (let sec = (up mod 2 ^ 32) div 1000
      in ''1970-01-01T'' @ pad2 ((sec div 3600) mod 24) @ '':'' @ pad2 ((sec div 60) mod 60)
           @ '':'' @ pad2 (sec mod 60))"

text \<open>A world in which WiFi is up between 4900 ms and 5000 ms only and the humidity reading
  is the fault value, and a world in which the wall clock never leaves 0.\<close>

definition example_world :: world where
  "example_world = \<lparr>wall = (\<lambda>t. 0), wifi = (\<lambda>t. 4900 \<le> t \<and> t \<le> 5000),
     humidity = (\<lambda>t. NaN), temperature = (\<lambda>t. Num 21.5),
     http_begin = (\<lambda>t. True), http_post = (\<lambda>t body. 200),
     iso_utc = (\<lambda>now. ''2024-01-01T00:00:00''), float_str = (\<lambda>x. ''21.50'')\<rparr>"

definition unsynced_world :: world where
  "unsynced_world = \<lparr>wall = (\<lambda>t. 0), wifi = (\<lambda>t. True),
     humidity = (\<lambda>t. Num 40), temperature = (\<lambda>t. Num 21.5),
     http_begin = (\<lambda>t. True), http_post = (\<lambda>t body. 200),
     iso_utc = (\<lambda>now. ''2024-01-01T00:00:00''),
     float_str = (\<lambda>x. if x = Num 40 then ''40.00'' else ''21.50'')\<rparr>"

section \<open>Facts about the viewer\<close>

lemma regex_anchored_ci_iff: "regex_anchored_ci ps cs \<longleftrightarrow> map to_upper ps = map to_upper cs"
  by (induction ps cs rule: regex_anchored_ci.induct) auto

lemma threat_loop_iff: "threat_loop ts \<longleftrightarrow> (\<exists>t \<in> set ts. threat_regex_test (js_trim t))"
  by (induction ts) auto

lemma grid_render_grid_aux:
  "grid (foldl (\<lambda>q device. q\<lparr>grid := grid q @ [render_card device]\<rparr>) q0 ds)
     = grid q0 @ map render_card ds"
  by (induction ds arbitrary: q0) auto

lemma render_grid_other_aux:
  "foldl (\<lambda>q device. q\<lparr>grid := grid q @ [render_card device]\<rparr>) q0 ds
     = q0\<lparr>grid := grid q0 @ map render_card ds\<rparr>"
  by (induction ds arbitrary: q0) auto

lemma render_grid_eq: "render_grid ds p = p\<lparr>grid := map render_card ds\<rparr>"
  by (simp add: render_grid_def render_grid_other_aux)

lemmas viewer_eval = fetchAndRender_def example_page_def example_device_def render_grid_eq
  renderSummary_def scanDomForThreat_def existsThreatDetectedInCards_def threatNodes_def
  render_card_def threat_regex_test_def js_trim_def is_ws_def to_upper_def createPopup_def
  innerText_def strip_trailing_space_def collapsible_def
  removePopup_def run_def on_socket_def socket_init_def log_fetch_failure_def count_devices_def
  summary_html_def digit_def default_popup_def

subsection \<open>At most one alert surface\<close>

lemma popups_removePopup: "length (popups (removePopup p)) = length (popups p) - 1"
  by (simp add: removePopup_def split: list.splits)

lemma popups_createPopup: "length (popups (createPopup t p)) = Suc (length (popups p) - 1)"
  by (simp add: createPopup_def Let_def popups_removePopup)

lemma amo_removePopup: "at_most_one_popup p \<Longrightarrow> at_most_one_popup (removePopup p)"
  by (simp add: at_most_one_popup_def popups_removePopup)

lemma amo_createPopup: "at_most_one_popup p \<Longrightarrow> at_most_one_popup (createPopup t p)"
  by (simp add: at_most_one_popup_def popups_createPopup)

lemma amo_scan: "at_most_one_popup p \<Longrightarrow> at_most_one_popup (scanDomForThreat p)"
  by (simp add: scanDomForThreat_def amo_removePopup amo_createPopup)

lemma popups_render: "popups (render_grid ds (renderSummary ds p)) = popups p"
  by (simp add: render_grid_eq renderSummary_def)

lemma amo_render: "at_most_one_popup p \<Longrightarrow> at_most_one_popup (render_grid ds (renderSummary ds p))"
  by (simp add: at_most_one_popup_def popups_render)

lemma amo_console: "at_most_one_popup (p\<lparr>console := c\<rparr>) = at_most_one_popup p"
  by (simp add: at_most_one_popup_def)

lemma amo_fetch: "at_most_one_popup p \<Longrightarrow> at_most_one_popup (fetchAndRender r p)"
  by (cases r) (simp_all add: fetchAndRender_def log_fetch_failure_def amo_scan amo_render amo_console)

lemma amo_socket: "at_most_one_popup p \<Longrightarrow> at_most_one_popup (on_socket ev r p)"
  by (cases ev) (simp_all add: on_socket_def amo_fetch amo_console)

lemma amo_step: "at_most_one_popup p \<Longrightarrow> at_most_one_popup (step p e)"
proof (cases e)
  case (Timer cb r)
  then show "at_most_one_popup p \<Longrightarrow> ?thesis"
    by (cases cb) (simp_all add: amo_fetch amo_scan)
qed (simp_all add: amo_fetch amo_socket amo_scan amo_removePopup amo_createPopup)

lemma amo_run: "at_most_one_popup p \<Longrightarrow> at_most_one_popup (run p es)"
  unfolding run_def by (induction es arbitrary: p) (simp_all add: amo_step)

lemma createPopup_replaces:
  "at_most_one_popup p \<Longrightarrow>
     popups (createPopup t p) = [\<lparr>sub = (if t = [] then ''Potential malicious activity detected'' else t)\<rparr>]"
  by (cases "popups p") (simp_all add: at_most_one_popup_def createPopup_def removePopup_def Let_def)

lemma removePopup_clears: "at_most_one_popup p \<Longrightarrow> popups (removePopup p) = []"
  by (cases "popups p") (simp_all add: at_most_one_popup_def removePopup_def)

text \<open>
  C3. Start from a page with at most one popup and run any sequence of events (refreshes,
  socket events, timers, scans, the two test helpers). After every prefix of the sequence
  the page has at most one popup, and creating a popup there leaves exactly the new one.
\<close>

theorem at_most_one_alert_surface:
  assumes "length (popups p0) \<le> 1"
  shows "length (popups (run p0 (take n es))) \<le> 1
    \<and> popups (createPopup text (run p0 (take n es)))
        = [\<lparr>sub = (if text = [] then ''Potential malicious activity detected'' else text)\<rparr>]"
proof -
  have "at_most_one_popup (run p0 (take n es))"
    using assms by (intro amo_run) (simp add: at_most_one_popup_def)
  then show ?thesis
    using createPopup_replaces [of "run p0 (take n es)" "text"] by (simp add: at_most_one_popup_def)
qed

theorem at_most_one_alert_surface_witness:
  "length (popups example_page) \<le> 1
   \<and> length (popups (run example_page (take 3
        [Refresh (Devices [example_device 1 ''Threat Detected'']), Scan,
         TriggerThreatPopupForTest ''x'', Refresh FetchRejected]))) \<le> 1
   \<and> popups (run example_page (take 3
        [Refresh (Devices [example_device 1 ''Threat Detected'']), Scan,
         TriggerThreatPopupForTest ''x'', Refresh FetchRejected])) = [\<lparr>sub = ''x''\<rparr>]"
proof -
  have h: "length (popups example_page) \<le> 1" by (simp add: example_page_def)
  have e: "popups (run example_page (take 3
        [Refresh (Devices [example_device 1 ''Threat Detected'']), Scan,
         TriggerThreatPopupForTest ''x'', Refresh FetchRejected])) = [\<lparr>sub = ''x''\<rparr>]"
    by (simp add: viewer_eval)
  show ?thesis
    using h e at_most_one_alert_surface [OF h, of 3 "[Refresh (Devices [example_device 1 ''Threat Detected'']), Scan,
         TriggerThreatPopupForTest ''x'', Refresh FetchRejected]" "''y''"]
    by simp
qed


subsection \<open>Trimming and the pattern\<close>

lemma is_ws_to_upper: "is_ws c \<Longrightarrow> to_upper c = c"
  unfolding is_ws_def by (elim disjE | simp add: to_upper_def)+





lemma sentinel_upper: "map to_upper ''Threat Detected'' = ''THREAT DETECTED''"
  by (simp add: to_upper_def)


subsection \<open>Rendered text\<close>

lemma collapsible_is_ws: "collapsible c \<Longrightarrow> is_ws c"
  by (auto simp: collapsible_def is_ws_def)

lemma is_ws_space: "is_ws (CHR '' '')"
  by (simp add: is_ws_def)



lemma filter_collapse_ws:
  "filter (\<lambda>c. \<not> is_ws c) (collapse_ws b xs) = filter (\<lambda>c. \<not> is_ws c) xs"
  by (induction xs arbitrary: b) (simp_all add: collapsible_is_ws is_ws_space)

lemma filter_strip_trailing_space:
  "filter (\<lambda>c. \<not> is_ws c) (strip_trailing_space xs) = filter (\<lambda>c. \<not> is_ws c) xs"
proof (cases "xs \<noteq> [] \<and> last xs = CHR '' ''")
  case True
  then have "xs = butlast xs @ [CHR '' '']" by (metis append_butlast_last_id)
  then have "filter (\<lambda>c. \<not> is_ws c) xs = filter (\<lambda>c. \<not> is_ws c) (butlast xs @ [CHR '' ''])"
    by simp
  also have "\<dots> = filter (\<lambda>c. \<not> is_ws c) (butlast xs)"
    by (simp add: is_ws_space)
  finally show ?thesis using True by (simp add: strip_trailing_space_def)
next
  case False
  then show ?thesis by (auto simp: strip_trailing_space_def)
qed

lemma filter_dropWhile_ws:
  "filter (\<lambda>c. \<not> is_ws c) (dropWhile is_ws xs) = filter (\<lambda>c. \<not> is_ws c) xs"
  by (induction xs) auto

lemma filter_js_trim:
  "filter (\<lambda>c. \<not> is_ws c) (js_trim xs) = filter (\<lambda>c. \<not> is_ws c) xs"
proof -
  have "filter (\<lambda>c. \<not> is_ws c) (js_trim xs)
      = rev (filter (\<lambda>c. \<not> is_ws c) (dropWhile is_ws (rev (dropWhile is_ws xs))))"
    by (simp add: js_trim_def rev_filter)
  also have "\<dots> = rev (filter (\<lambda>c. \<not> is_ws c) (rev (dropWhile is_ws xs)))"
    by (simp only: filter_dropWhile_ws)
  also have "\<dots> = filter (\<lambda>c. \<not> is_ws c) (dropWhile is_ws xs)"
    by (simp add: rev_filter)
  finally show ?thesis by (simp only: filter_dropWhile_ws)
qed

lemma filter_rendered:
  "filter (\<lambda>c. \<not> is_ws c) (js_trim (innerText xs)) = filter (\<lambda>c. \<not> is_ws c) xs"
  by (simp add: filter_js_trim innerText_def filter_strip_trailing_space filter_collapse_ws)

lemma is_ws_to_upper_iff: "is_ws (to_upper c) \<longleftrightarrow> is_ws c"
proof
  assume "is_ws c" then show "is_ws (to_upper c)" by (simp add: is_ws_to_upper)
next
  assume a: "is_ws (to_upper c)"
  show "is_ws c"
  proof (cases "map_of (zip ''abcdefghijklmnopqrstuvwxyz'' ''ABCDEFGHIJKLMNOPQRSTUVWXYZ'') c")
    case None
    then have "to_upper c = c" by (simp add: to_upper_def)
    with a show ?thesis by simp
  next
    case (Some u)
    then have "to_upper c = u" by (simp add: to_upper_def)
    moreover have "u \<in> set ''ABCDEFGHIJKLMNOPQRSTUVWXYZ''"
      by (rule set_zip_rightD [OF map_of_SomeD [OF Some]])
    ultimately have "\<not> is_ws (to_upper c)" by (auto simp: is_ws_def)
    with a show ?thesis by simp
  qed
qed

lemma filter_map_to_upper:
  "filter (\<lambda>c. \<not> is_ws c) (map to_upper xs) = map to_upper (filter (\<lambda>c. \<not> is_ws c) xs)"
  by (induction xs) (simp_all add: is_ws_to_upper_iff)

lemma match_letters:
  assumes "map to_upper (js_trim (innerText f)) = map to_upper ''Threat Detected''"
  shows "map to_upper (filter (\<lambda>c. \<not> is_ws c) f) = ''THREATDETECTED''"
proof -
  have "map to_upper (filter (\<lambda>c. \<not> is_ws c) f)
      = map to_upper (filter (\<lambda>c. \<not> is_ws c) (js_trim (innerText f)))"
    by (simp only: filter_rendered)
  also have "\<dots> = filter (\<lambda>c. \<not> is_ws c) (map to_upper (js_trim (innerText f)))"
    by (simp only: filter_map_to_upper)
  also have "\<dots> = filter (\<lambda>c. \<not> is_ws c) ''THREAT DETECTED''"
    by (simp only: assms sentinel_upper)
  also have "\<dots> = ''THREATDETECTED''"
    by (simp add: is_ws_def)
  finally show ?thesis .
qed











subsection \<open>The pattern and the rendered grid\<close>

lemma threat_regex_test_iff:
  "threat_regex_test txt \<longleftrightarrow> map to_upper txt = ''THREAT DETECTED''"
proof -
  have "threat_regex_test txt \<longleftrightarrow> map to_upper ''Threat Detected'' = map to_upper txt"
    unfolding threat_regex_test_def by (rule regex_anchored_ci_iff)
  also have "\<dots> \<longleftrightarrow> ''THREAT DETECTED'' = map to_upper txt"
    by (simp only: sentinel_upper)
  finally show ?thesis by (simp only: eq_commute [of "''THREAT DETECTED''"])
qed

lemma no_threat_no_match: "\<not> threat_regex_test (js_trim (innerText ''No Threat''))"
  by (simp add: threat_regex_test_def js_trim_def is_ws_def to_upper_def innerText_def
      strip_trailing_space_def collapsible_def)

lemma card_threat_fields:
  "c_threat (render_card d) = threat d"
  "c_threatClass (render_card d) = ''threat'' \<longleftrightarrow> threat d \<noteq> ''No Threat''"
  by (simp_all add: render_card_def Let_def)

lemma threatNodes_rendered:
  "threatNodes (render_grid ds (renderSummary ds p))
     = map (\<lambda>d. innerText (threat d)) (filter (\<lambda>d. threat d \<noteq> ''No Threat'') ds)"
  unfolding threatNodes_def render_grid_eq
  by (induction ds) (simp_all add: card_threat_fields)

lemma exists_threat_rendered:
  "existsThreatDetectedInCards (render_grid ds (renderSummary ds p))
     \<longleftrightarrow> (\<exists>d \<in> set ds. threat_regex_test (js_trim (innerText (threat d))))"
  unfolding existsThreatDetectedInCards_def threat_loop_iff threatNodes_rendered
  using no_threat_no_match by auto

lemma exists_threat_grid_only:
  "grid q = grid p \<Longrightarrow> existsThreatDetectedInCards q = existsThreatDetectedInCards p"
  by (simp add: existsThreatDetectedInCards_def threatNodes_def)

subsection \<open>The shape of a refresh\<close>

lemma render_eq: "render_grid ds (renderSummary ds p) = rendered ds p"
  by (simp add: render_grid_eq renderSummary_def rendered_def)

lemma scan_popups:
  assumes "at_most_one_popup p"
  shows "scanDomForThreat p
     = p\<lparr>popups := (if existsThreatDetectedInCards p then [default_popup] else [])\<rparr>"
proof (cases "popups p")
  case Nil
  then show ?thesis
    by (simp add: scanDomForThreat_def createPopup_def removePopup_def default_popup_def)
next
  case (Cons x xs)
  with assms have "xs = []" by (simp add: at_most_one_popup_def)
  with Cons show ?thesis
    by (simp add: scanDomForThreat_def createPopup_def removePopup_def default_popup_def)
qed

lemma fetch_devices_eq:
  assumes "at_most_one_popup p"
  shows "fetchAndRender (Devices ds) p
     = p\<lparr>summary := summary_html (count_devices ds), grid := map render_card ds,
         popups := (if \<exists>d \<in> set ds. threat_regex_test (js_trim (innerText (threat d)))
                    then [default_popup] else [])\<rparr>"
proof -
  have a: "at_most_one_popup (rendered ds p)"
    using assms by (simp add: at_most_one_popup_def rendered_def)
  have e: "existsThreatDetectedInCards (rendered ds p)
      \<longleftrightarrow> (\<exists>d \<in> set ds. threat_regex_test (js_trim (innerText (threat d))))"
    using exists_threat_rendered [of ds p] by (simp only: render_eq)
  show ?thesis
    by (simp add: fetchAndRender_def render_eq scan_popups [OF a] e) (simp add: rendered_def)
qed

subsection \<open>Idempotent refresh\<close>

text \<open>
  C7. On a page with at most one popup, a second refresh with the same device collection
  changes nothing: the page after two refreshes equals the page after one (summary, grid
  and popup alike), a further scan changes nothing either, the scan alone is idempotent,
  and at most one popup exists afterwards.
\<close>

theorem refresh_idempotent:
  assumes "length (popups p) \<le> 1"
  shows "fetchAndRender (Devices ds) (fetchAndRender (Devices ds) p) = fetchAndRender (Devices ds) p
    \<and> scanDomForThreat (fetchAndRender (Devices ds) p) = fetchAndRender (Devices ds) p
    \<and> scanDomForThreat (scanDomForThreat p) = scanDomForThreat p
    \<and> length (popups (fetchAndRender (Devices ds) (fetchAndRender (Devices ds) p))) \<le> 1"
proof -
  have a: "at_most_one_popup p"
    using assms by (simp add: at_most_one_popup_def)
  let ?q = "fetchAndRender (Devices ds) p"
  have aq: "at_most_one_popup ?q" using a by (rule amo_fetch)
  have 1: "fetchAndRender (Devices ds) ?q = ?q"
    by (subst fetch_devices_eq [OF aq]) (simp add: fetch_devices_eq [OF a])
  have eq: "existsThreatDetectedInCards ?q \<longleftrightarrow> (\<exists>d \<in> set ds. threat_regex_test (js_trim (innerText (threat d))))"
    using exists_threat_rendered [of ds p] exists_threat_grid_only [of ?q "rendered ds p"]
    by (simp add: render_eq fetch_devices_eq [OF a] rendered_def)
  have 2: "scanDomForThreat ?q = ?q"
    by (subst scan_popups [OF aq]) (simp add: eq, simp add: fetch_devices_eq [OF a])
  have as: "at_most_one_popup (scanDomForThreat p)" using a by (rule amo_scan)
  have es: "existsThreatDetectedInCards (scanDomForThreat p) = existsThreatDetectedInCards p"
    by (rule exists_threat_grid_only) (simp add: scan_popups [OF a])
  have 3: "scanDomForThreat (scanDomForThreat p) = scanDomForThreat p"
    by (subst scan_popups [OF as]) (simp add: es, simp add: scan_popups [OF a])
  have 4: "length (popups (fetchAndRender (Devices ds) ?q)) \<le> 1"
    using aq by (simp add: 1 at_most_one_popup_def)
  from 1 2 3 4 show ?thesis by blast
qed

theorem refresh_idempotent_witness:
  "length (popups example_page) \<le> 1
   \<and> fetchAndRender (Devices [example_device 1 ''No Threat'', example_device 2 ''Threat Detected''])
        (fetchAndRender (Devices [example_device 1 ''No Threat'', example_device 2 ''Threat Detected'']) example_page)
      = fetchAndRender (Devices [example_device 1 ''No Threat'', example_device 2 ''Threat Detected'']) example_page
   \<and> popups (fetchAndRender (Devices [example_device 1 ''No Threat'', example_device 2 ''Threat Detected'']) example_page)
      = [default_popup]"
proof -
  have h: "length (popups example_page) \<le> 1" by (simp add: example_page_def)
  have e: "popups (fetchAndRender (Devices [example_device 1 ''No Threat'', example_device 2 ''Threat Detected'']) example_page)
      = [default_popup]"
    by (simp add: viewer_eval)
  show ?thesis
    using h e refresh_idempotent [OF h, of "[example_device 1 ''No Threat'', example_device 2 ''Threat Detected'']"]
    by simp
qed

subsection \<open>A failed fetch\<close>

text \<open>
  C8. When the fetch rejects, the body does not decode or the decoded value is no array,
  \<open>fetchAndRender\<close> (in both drafts) returns the page with one more console line and
  nothing else changed: summary, grid and popups are those of the last good refresh. The
  function returns normally, and the scan and the next refresh behave as if the failure had
  not happened.
\<close>

theorem fetch_failure_keeps_snapshot:
  assumes "fetch_failed r"
  shows "fetchAndRender r p = p\<lparr>console := console p @ [''Failed to fetch devices:'']\<rparr>
    \<and> fetchAndRender_script r p = p\<lparr>console := console p @ [''Failed to fetch devices:'']\<rparr>
    \<and> summary (fetchAndRender r p) = summary p
    \<and> grid (fetchAndRender r p) = grid p
    \<and> popups (fetchAndRender r p) = popups p
    \<and> scanDomForThreat (fetchAndRender r p)
        = (scanDomForThreat p)\<lparr>console := console p @ [''Failed to fetch devices:'']\<rparr>
    \<and> fetchAndRender (Devices ds) (fetchAndRender r p)
        = (fetchAndRender (Devices ds) p)\<lparr>console := console p @ [''Failed to fetch devices:'']\<rparr>"
proof -
  let ?l = "p\<lparr>console := console p @ [''Failed to fetch devices:'']\<rparr>"
  have 1: "fetchAndRender r p = ?l" "fetchAndRender_script r p = ?l"
    using assms by (cases r; simp add: fetch_failed_def fetchAndRender_def fetchAndRender_script_def log_fetch_failure_def)+
  have ex: "\<And>q c. existsThreatDetectedInCards (q\<lparr>console := c\<rparr>) = existsThreatDetectedInCards q"
    by (rule exists_threat_grid_only) simp
  have sc: "\<And>q c. scanDomForThreat (q\<lparr>console := c\<rparr>) = (scanDomForThreat q)\<lparr>console := c\<rparr>"
    by (simp add: scanDomForThreat_def ex createPopup_def removePopup_def Let_def split: list.splits)
  have 2: "scanDomForThreat ?l = (scanDomForThreat p)\<lparr>console := console p @ [''Failed to fetch devices:'']\<rparr>"
    by (rule sc)
  have 3: "fetchAndRender (Devices ds) ?l
        = (fetchAndRender (Devices ds) p)\<lparr>console := console p @ [''Failed to fetch devices:'']\<rparr>"
  proof -
    have c: "?l\<lparr>summary := summary_html (count_devices ds), grid := map render_card ds\<rparr>
        = (rendered ds p)\<lparr>console := console p @ [''Failed to fetch devices:'']\<rparr>"
      by (cases p) (simp add: rendered_def)
    show ?thesis
      by (simp add: fetchAndRender_def render_grid_eq renderSummary_def)
         (simp only: c sc, simp add: rendered_def)
  qed
  show ?thesis by (simp add: 1 2 3)
qed

theorem fetch_failure_keeps_snapshot_witness:
  "fetch_failed JsonRejected
   \<and> grid (fetchAndRender JsonRejected (fetchAndRender (Devices [example_device 2 ''Threat Detected'']) example_page))
       = [render_card (example_device 2 ''Threat Detected'')]
   \<and> popups (fetchAndRender JsonRejected (fetchAndRender (Devices [example_device 2 ''Threat Detected'']) example_page))
       = [default_popup]"
proof -
  have h: "fetch_failed JsonRejected" by (simp add: fetch_failed_def)
  have e: "grid (fetchAndRender (Devices [example_device 2 ''Threat Detected'']) example_page)
       = [render_card (example_device 2 ''Threat Detected'')]"
      "popups (fetchAndRender (Devices [example_device 2 ''Threat Detected'']) example_page)
       = [default_popup]"
    by (simp_all add: viewer_eval)
  show ?thesis
    using h e fetch_failure_keeps_snapshot [OF h,
       of "fetchAndRender (Devices [example_device 2 ''Threat Detected'']) example_page"]
    by simp
qed

subsection \<open>White space and letter case\<close>



subsection \<open>Summary counter against alert\<close>

text \<open>
  C10. For the single device with threat field \<^verbatim>\<open>threat detected\<close> the summary counts one
  device online, none offline and zero threats, while the refresh shows the popup.
\<close>

theorem summary_and_alert_disagree:
  "count_devices [example_device 1 ''threat detected''] = (1, 0, 0)
   \<and> summary (fetchAndRender (Devices [example_device 1 ''threat detected'']) example_page)
       = summary_html (1, 0, 0)
   \<and> popups (fetchAndRender (Devices [example_device 1 ''threat detected'']) example_page)
       = [default_popup]"
  by (simp add: viewer_eval)

subsection \<open>What the alert decision looks at\<close>

text \<open>Two threat fields that are no whole-field match, not even after trimming or up to letter
  case, and show the popup: the phrase after one leading space (a proper substring of the
  field), and the phrase with two spaces between its words.\<close>

theorem substring_claim_counterexample:
  "[CHR '' ''] @ ''Threat Detected'' \<noteq> ''Threat Detected''
   \<and> popups (fetchAndRender (Devices [example_device 1 ([CHR '' ''] @ ''Threat Detected'')]) example_page)
       = [default_popup]
   \<and> map to_upper (js_trim ''Threat  Detected'') \<noteq> map to_upper ''Threat Detected''
   \<and> popups (fetchAndRender (Devices [example_device 1 ''Threat  Detected'']) example_page)
       = [default_popup]"
  by (simp add: viewer_eval)

lemma summary_has_sentinel:
  "\<exists>pre post. summary_html c = pre @ ''Threat Detected'' @ post"
proof (cases c)
  case (fields online offline threats)
  show ?thesis
    unfolding fields summary_html_def prod.case
    by (rule exI [of _ "[CHR 0x0A] @ ''    <span class=\"badge bg-success me-2\">'' @ dec online @ '' Online</span>'' @
     [CHR 0x0A] @ ''    <span class=\"badge bg-secondary me-2\">'' @ dec offline @ '' Offline</span>'' @
     [CHR 0x0A] @ ''    <span class=\"badge bg-danger\">'' @ dec threats @ '' ''"],
        rule exI [of _ "''</span>'' @ [CHR 0x0A] @ ''  ''"]) simp
qed

text \<open>
  C2 (amended). For a collection of devices whose fields are plain text, on a page with at
  most one popup, a refresh shows the popup exactly when some device's threat field, as
  rendered (runs of collapsible white space read as one space) and trimmed, equals the
  sentinel phrase up to letter case. Whenever the popup is shown, some device's threat
  field consists, white space aside, of the letters of the phrase and nothing else: a field
  with the phrase inside a longer sentence does not show it. The decision does not read the
  summary: replacing the summary text leaves it unchanged, although the summary written
  by the refresh always contains the words \<^verbatim>\<open>Threat Detected\<close>.
\<close>

theorem alert_follows_rendered_threat_fields:
  assumes "length (popups p) \<le> 1"
    and "\<forall>d \<in> set ds. plain_device d"
  shows "(popups (fetchAndRender (Devices ds) p) \<noteq> [])
       = (\<exists>d \<in> set ds. map to_upper (js_trim (innerText (threat d)))
            = map to_upper ''Threat Detected'')
    \<and> (popups (fetchAndRender (Devices ds) p) \<noteq> []
         \<longrightarrow> (\<exists>d \<in> set ds. map to_upper (filter (\<lambda>c. \<not> is_ws c) (threat d))
               = ''THREATDETECTED''))
    \<and> existsThreatDetectedInCards ((fetchAndRender (Devices ds) p)\<lparr>summary := text\<rparr>)
       = existsThreatDetectedInCards (fetchAndRender (Devices ds) p)
    \<and> (\<exists>pre post. summary (fetchAndRender (Devices ds) p) = pre @ ''Threat Detected'' @ post)"
proof -
  have a: "at_most_one_popup p"
    using assms(1) by (simp add: at_most_one_popup_def)
  have 1: "(popups (fetchAndRender (Devices ds) p) \<noteq> [])
       = (\<exists>d \<in> set ds. map to_upper (js_trim (innerText (threat d)))
            = map to_upper ''Threat Detected'')"
  proof -
    have "(popups (fetchAndRender (Devices ds) p) \<noteq> [])
       = (\<exists>d \<in> set ds. threat_regex_test (js_trim (innerText (threat d))))"
      by (simp add: fetch_devices_eq [OF a])
    then show ?thesis
      by (simp only: threat_regex_test_iff sentinel_upper)
  qed
  have 2: "popups (fetchAndRender (Devices ds) p) \<noteq> []
         \<longrightarrow> (\<exists>d \<in> set ds. map to_upper (filter (\<lambda>c. \<not> is_ws c) (threat d))
               = ''THREATDETECTED'')"
    unfolding 1 using match_letters by blast
  have 3: "existsThreatDetectedInCards ((fetchAndRender (Devices ds) p)\<lparr>summary := text\<rparr>)
       = existsThreatDetectedInCards (fetchAndRender (Devices ds) p)"
    by (rule exists_threat_grid_only) simp
  have 4: "\<exists>pre post. summary (fetchAndRender (Devices ds) p) = pre @ ''Threat Detected'' @ post"
    using summary_has_sentinel [of "count_devices ds"] by (simp add: fetch_devices_eq [OF a])
  from 1 2 3 4 show ?thesis by blast
qed

theorem alert_follows_rendered_threat_fields_witness:
  "length (popups example_page) \<le> 1
   \<and> plain_device (example_device 1 ''No Threat'')
   \<and> plain_device (example_device 2 ''Threat Detected: none'')
   \<and> map to_upper (filter (\<lambda>c. \<not> is_ws c) (threat (example_device 1 ''No Threat'')))
       \<noteq> ''THREATDETECTED''
   \<and> map to_upper (filter (\<lambda>c. \<not> is_ws c) (threat (example_device 2 ''Threat Detected: none'')))
       \<noteq> ''THREATDETECTED''
   \<and> popups (fetchAndRender
        (Devices [example_device 1 ''No Threat'', example_device 2 ''Threat Detected: none''])
        example_page) = []"
proof -
  let ?ds = "[example_device 1 ''No Threat'', example_device 2 ''Threat Detected: none'']"
  have h: "length (popups example_page) \<le> 1" by (simp add: example_page_def)
  have pl: "plain_device (example_device 1 ''No Threat'')"
    "plain_device (example_device 2 ''Threat Detected: none'')"
    by (simp_all add: plain_device_def plain_text_def example_device_def)
  then have pls: "\<forall>d \<in> set ?ds. plain_device d" by simp
  have n: "map to_upper (filter (\<lambda>c. \<not> is_ws c) (threat (example_device 1 ''No Threat'')))
       \<noteq> ''THREATDETECTED''"
    "map to_upper (filter (\<lambda>c. \<not> is_ws c) (threat (example_device 2 ''Threat Detected: none'')))
       \<noteq> ''THREATDETECTED''"
    by (simp_all add: example_device_def is_ws_def)
  from alert_follows_rendered_threat_fields [OF h pls]
  have "popups (fetchAndRender (Devices ?ds) example_page) \<noteq> []
     \<longrightarrow> (\<exists>d \<in> set ?ds. map to_upper (filter (\<lambda>c. \<not> is_ws c) (threat d)) = ''THREATDETECTED'')"
    by blast
  with n have "popups (fetchAndRender (Devices ?ds) example_page) = []"
    by auto
  with h pl n show ?thesis by blast
qed

subsection \<open>Fallback polling\<close>

lemma timers_removePopup: "timers (removePopup p) = timers p"
  by (simp add: removePopup_def split: list.splits)

lemma timers_createPopup: "timers (createPopup t p) = timers p"
  by (simp add: createPopup_def Let_def timers_removePopup)

lemma timers_scan: "timers (scanDomForThreat p) = timers p"
  by (simp add: scanDomForThreat_def timers_removePopup timers_createPopup)

lemma timers_fetch: "timers (fetchAndRender r p) = timers p"
  by (cases r) (simp_all add: fetchAndRender_def log_fetch_failure_def timers_scan render_grid_eq renderSummary_def)

lemma timers_socket: "timers (on_socket ev r p) = timers p"
  by (cases ev) (simp_all add: on_socket_def timers_fetch)

lemma timers_step: "timers (step p e) = timers p"
proof (cases e)
  case (Timer cb r)
  then show ?thesis
    by (cases cb) (simp_all add: timers_fetch timers_scan)
qed (simp_all add: timers_fetch timers_socket timers_scan timers_removePopup timers_createPopup)

lemma timers_run: "timers (run p es) = timers p"
  unfolding run_def by (induction es arbitrary: p) (simp_all add: timers_step)

text \<open>
  C4 (amended). When \<^verbatim>\<open>io(...)\<close> throws during initialisation, the script installs the timer
  \<^verbatim>\<open>setInterval(fetchAndRender, 3000)\<close>, and each firing of it runs a refresh. When
  \<^verbatim>\<open>io(...)\<close> returns a socket, no event that follows installs a timer; a
  \<^verbatim>\<open>connect_error\<close> only writes a console line.
\<close>

theorem polling_only_when_init_throws:
  "timers (socket_init IoThrows p) = timers p @ [(FetchAndRender, 3000)]
   \<and> step (socket_init IoThrows p) (Timer FetchAndRender r) = fetchAndRender r (socket_init IoThrows p)
   \<and> timers (run (socket_init IoSocket p) es) = timers p
   \<and> on_socket ConnectError r (socket_init IoSocket p)
       = (socket_init IoSocket p)\<lparr>console := console p @ [''Socket connect_error:'']\<rparr>"
  by (simp add: timers_run) (simp add: socket_init_def on_socket_def)

text \<open>After a \<^verbatim>\<open>connect_error\<close> on an initialised socket no timer exists, and a timer event
  for \<open>fetchAndRender\<close> does nothing.\<close>

theorem connect_error_no_polling_counterexample:
  "timers (on_socket ConnectError FetchRejected (socket_init IoSocket example_page)) = []
   \<and> console (on_socket ConnectError FetchRejected (socket_init IoSocket example_page))
       = [''Socket connect_error:'']
   \<and> step (on_socket ConnectError FetchRejected (socket_init IoSocket example_page))
        (Timer FetchAndRender (Devices [example_device 1 ''No Threat'']))
       = on_socket ConnectError FetchRejected (socket_init IoSocket example_page)"
  by (simp add: socket_init_def on_socket_def example_page_def)

section \<open>Facts about the edge client\<close>

subsection \<open>What the timestamp routines and the send leave alone\<close>

lemma ntp_wait_frame:
  "ntp_wait w start now s = (now', s') \<Longrightarrow>
     uptime s \<le> uptime s' \<and> s' = s\<lparr>uptime := uptime s'\<rparr>"
proof (induction w start now s rule: ntp_wait.induct)
  case (1 w start now s)
  show ?case
  proof (cases "millis s - start < 2000")
    case False
    with "1.prems" show ?thesis by (simp add: ntp_wait.simps [of w start now s])
  next
    case True
    let ?s1 = "delay 200 s"
    show ?thesis
    proof (cases "wall w (uptime ?s1) > 1000")
      case t: True
      with True "1.prems" have "s' = ?s1"
        by (simp add: ntp_wait.simps [of w start now s] Let_def)
      then show ?thesis by (simp add: delay_def)
    next
      case f: False
      with True "1.prems" have r: "ntp_wait w start (wall w (uptime ?s1)) ?s1 = (now', s')"
        by (simp add: ntp_wait.simps [of w start now s] Let_def)
      from "1.IH" [OF True refl refl f r]
      have "uptime ?s1 \<le> uptime s'" "s' = ?s1\<lparr>uptime := uptime s'\<rparr>" by simp_all
      then show ?thesis by (simp_all add: delay_def)
    qed
  qed
qed

lemma getIsoTimestamp_frame:
  "getIsoTimestamp w s = (ts, s') \<Longrightarrow> uptime s \<le> uptime s' \<and> s' = s\<lparr>uptime := uptime s'\<rparr>"
proof -
  assume a: "getIsoTimestamp w s = (ts, s')"
  obtain now s1 where n: "(if wall w (uptime s) \<le> 1000 then ntp_wait w (millis s) (wall w (uptime s)) s
       else (wall w (uptime s), s)) = (now, s1)"
    by (cases "(if wall w (uptime s) \<le> 1000 then ntp_wait w (millis s) (wall w (uptime s)) s
       else (wall w (uptime s), s))") auto
  have s1: "uptime s \<le> uptime s1 \<and> s1 = s\<lparr>uptime := uptime s1\<rparr>"
  proof (cases "wall w (uptime s) \<le> 1000")
    case True
    with n have "ntp_wait w (millis s) (wall w (uptime s)) s = (now, s1)" by simp
    then show ?thesis by (rule ntp_wait_frame)
  next
    case False
    with n show ?thesis by simp
  qed
  from a n have "s' = s1"
    by (auto simp: getIsoTimestamp_def Let_def split: if_splits)
  with s1 show ?thesis by simp
qed

lemma getIsoTimestamp_part002_frame:
  "getIsoTimestamp_part002 w s = (ts, s') \<Longrightarrow> s' = s"
  by (auto simp: getIsoTimestamp_part002_def Let_def split: if_splits)

lemma getIsoTimestamp_of_frame:
  "getIsoTimestamp_of dr w s = (ts, s') \<Longrightarrow> uptime s \<le> uptime s' \<and> s' = s\<lparr>uptime := uptime s'\<rparr>"
proof (cases dr)
  case Part001
  then show "getIsoTimestamp_of dr w s = (ts, s') \<Longrightarrow> ?thesis"
    using getIsoTimestamp_frame by simp
next
  case Part002
  then show "getIsoTimestamp_of dr w s = (ts, s') \<Longrightarrow> ?thesis"
    using getIsoTimestamp_part002_frame [of w s ts s'] by simp
qed

lemma sendSensorData_frame:
  "uptime s \<le> uptime (sendSensorData dr w s)
   \<and> begins (sendSensorData dr w s) = begins s
   \<and> lastWifiAttempt (sendSensorData dr w s) = lastWifiAttempt s
   \<and> lastSend (sendSensorData dr w s) = lastSend s"
proof (cases "isnan (humidity w (uptime s)) \<or> isnan (temperature w (uptime s))")
  case True
  then show ?thesis by (simp add: sendSensorData_def println_def)
next
  case False
  obtain ts s1 where g: "getIsoTimestamp_of dr w s = (ts, s1)"
    by (cases "getIsoTimestamp_of dr w s") auto
  from getIsoTimestamp_of_frame [OF g]
  have u: "uptime s \<le> uptime s1" and e: "s1 = s\<lparr>uptime := uptime s1\<rparr>" by simp_all
  have f: "begins s1 = begins s" "lastWifiAttempt s1 = lastWifiAttempt s" "lastSend s1 = lastSend s"
    by (subst e, simp)+
  show ?thesis
    using False u f by (simp add: sendSensorData_def g Let_def println_def)
qed

subsection \<open>Backoff between reconnect attempts\<close>

lemma unat_millis_diff_le:
  assumes "t \<le> u"
  shows "unat (word_of_nat u - word_of_nat t :: ulong) \<le> u - t"
proof -
  have "(word_of_nat u - word_of_nat t :: ulong) = word_of_nat (u - t)"
    using assms by (simp add: of_nat_diff)
  then show ?thesis by (simp add: unat_of_nat)
qed

lemma backoff_inv_frame:
  assumes "backoff_inv s" "uptime s \<le> uptime s'" "begins s' = begins s"
    "lastWifiAttempt s' = lastWifiAttempt s"
  shows "backoff_inv s'"
proof -
  have r: "reconnect_times s' = reconnect_times s"
    using assms(3) by (simp add: reconnect_times_def)
  have "list_all (\<lambda>t. t \<le> uptime s) (reconnect_times s)"
    using assms(1) by (simp add: backoff_inv_def)
  then have "list_all (\<lambda>t. t \<le> uptime s') (reconnect_times s)"
    using assms(2) by (auto simp: list_all_iff)
  then show ?thesis
    using assms(1,4) by (simp add: backoff_inv_def r)
qed

lemma spaced_Cons_le: "spaced d (t # r) \<Longrightarrow> list_all (\<lambda>b. b \<le> t) r"
  by (auto simp: list_all_iff)

lemma reconnect_times_reconnect:
  "reconnect_times (reconnectIfNeeded w s) =
     (if \<not> wifi w (uptime s) \<and> \<not> millis s - lastWifiAttempt s < WIFI_RECONNECT_INTERVAL_MS
      then uptime s # reconnect_times s else reconnect_times s)"
  by (simp add: reconnectIfNeeded_def reconnect_times_def Let_def println_def)

lemma backoff_inv_reconnect:
  assumes "backoff_inv s"
  shows "backoff_inv (reconnectIfNeeded w s)"
proof (cases "\<not> wifi w (uptime s) \<and> \<not> millis s - lastWifiAttempt s < WIFI_RECONNECT_INTERVAL_MS")
  case False
  then have "reconnectIfNeeded w s = s"
    by (auto simp: reconnectIfNeeded_def Let_def)
  with assms show ?thesis by simp
next
  case True
  let ?s' = "reconnectIfNeeded w s"
  have rt: "reconnect_times ?s' = uptime s # reconnect_times s"
    using True by (simp add: reconnect_times_reconnect)
  have up: "uptime ?s' = uptime s" and lw: "lastWifiAttempt ?s' = word_of_nat (uptime s)"
    using True by (simp_all add: reconnectIfNeeded_def Let_def println_def millis_def)
  have ge: "unat WIFI_RECONNECT_INTERVAL_MS \<le> unat (millis s - lastWifiAttempt s)"
    using True by (simp add: word_less_nat_alt)
  have all_le: "list_all (\<lambda>t. t \<le> uptime s) (reconnect_times s)"
    and sp: "spaced (unat WIFI_RECONNECT_INTERVAL_MS) (reconnect_times s)"
    and late: "list_all (\<lambda>t. unat WIFI_RECONNECT_INTERVAL_MS \<le> t) (reconnect_times s)"
    using assms by (simp_all add: backoff_inv_def)
  have now_late: "unat WIFI_RECONNECT_INTERVAL_MS \<le> uptime s"
  proof (cases "reconnect_times s")
    case Nil
    then have "lastWifiAttempt s = 0"
      using assms by (simp add: backoff_inv_def)
    then have "unat (millis s - lastWifiAttempt s) \<le> uptime s"
      by (simp add: millis_def unat_of_nat)
    with ge show ?thesis by linarith
  next
    case (Cons t r)
    then have "unat WIFI_RECONNECT_INTERVAL_MS \<le> t" "t \<le> uptime s"
      using late all_le by simp_all
    then show ?thesis by linarith
  qed
  have new: "list_all (\<lambda>b. b + unat WIFI_RECONNECT_INTERVAL_MS \<le> uptime s) (reconnect_times s)"
  proof (cases "reconnect_times s")
    case Nil
    then show ?thesis by simp
  next
    case (Cons t r)
    have lt: "lastWifiAttempt s = word_of_nat t"
      using assms Cons by (simp add: backoff_inv_def)
    have tu: "t \<le> uptime s"
      using all_le Cons by simp
    have "unat (millis s - lastWifiAttempt s) \<le> uptime s - t"
      unfolding millis_def lt by (rule unat_millis_diff_le [OF tu])
    with ge tu have head: "t + unat WIFI_RECONNECT_INTERVAL_MS \<le> uptime s" by linarith
    have "list_all (\<lambda>b. b + unat WIFI_RECONNECT_INTERVAL_MS \<le> t) r"
      using sp Cons by simp
    then have "list_all (\<lambda>b. b + unat WIFI_RECONNECT_INTERVAL_MS \<le> uptime s) r"
      using head by (auto simp: list_all_iff)
    with head Cons show ?thesis by simp
  qed
  show ?thesis
    unfolding backoff_inv_def rt up lw using new sp all_le late now_late by simp
qed

lemma setupWiFi_wait_frame:
  "begins (setupWiFi_wait w start s) = begins s
   \<and> lastWifiAttempt (setupWiFi_wait w start s) = lastWifiAttempt s
   \<and> uptime s \<le> uptime (setupWiFi_wait w start s)"
proof (induction w start s rule: setupWiFi_wait.induct)
  case (1 w start s)
  let ?s1 = "println ''.'' (delay 150 s)"
  show ?case
  proof (cases "wifi w (uptime s)")
    case True
    then show ?thesis by (simp add: setupWiFi_wait.simps [of w start s])
  next
    case False
    show ?thesis
    proof (cases "millis ?s1 - start > 10000")
      case True
      with False show ?thesis
        by (simp add: setupWiFi_wait.simps [of w start s] Let_def println_def delay_def)
    next
      case f: False
      from "1.IH" [OF False refl f] False f show ?thesis
        by (simp add: setupWiFi_wait.simps [of w start s] Let_def println_def delay_def)
    qed
  qed
qed

lemma setupWiFi_frame:
  "begins (setupWiFi w s) = (BySetup, uptime s) # begins s
   \<and> lastWifiAttempt (setupWiFi w s) = lastWifiAttempt s"
proof -
  let ?s2 = "println ''Connecting to WiFi'' (s\<lparr>begins := (BySetup, uptime s) # begins s\<rparr>)"
  let ?s3 = "setupWiFi_wait w (millis ?s2) ?s2"
  have 3: "begins ?s3 = (BySetup, uptime s) # begins s" "lastWifiAttempt ?s3 = lastWifiAttempt s"
    using setupWiFi_wait_frame [of w "millis ?s2" ?s2] by (simp_all add: println_def)
  have "setupWiFi w s = println ''WiFi connected, IP: '' (println [] ?s3)
      \<or> setupWiFi w s = println ''WiFi connect attempt timed out.'' (println [] ?s3)"
    unfolding setupWiFi_def Let_def by (rule if_split [THEN iffD2]) blast
  then show ?thesis
    using 3 by (auto simp: println_def)
qed

lemma setup_sketch_begins:
  "begins (setup_sketch dr w (boot t0)) = [(BySetup, t0)]
   \<and> lastWifiAttempt (setup_sketch dr w (boot t0)) = 0"
  using setupWiFi_frame [of w "println ([CHR 0x0A] @ ''Starting ESP Weather Node'') (boot t0)"]
  by (cases dr) (simp_all add: setup_sketch_def Let_def println_def boot_def)

lemma backoff_inv_setup: "backoff_inv (setup_sketch dr w (boot t0))"
  by (simp add: backoff_inv_def reconnect_times_def setup_sketch_begins)

lemma loop_frame:
  "uptime (reconnectIfNeeded w s) \<le> uptime (loop dr w s)
   \<and> begins (loop dr w s) = begins (reconnectIfNeeded w s)
   \<and> lastWifiAttempt (loop dr w s) = lastWifiAttempt (reconnectIfNeeded w s)"
proof -
  define s1 where "s1 = reconnectIfNeeded w s"
  define s' where "s' = s1\<lparr>lastSend := millis s1\<rparr>"
  have s'f: "uptime s' = uptime s1" "begins s' = begins s1" "lastWifiAttempt s' = lastWifiAttempt s1"
    by (simp_all add: s'_def)
  have l: "loop dr w s =
      delay 10 (if millis s1 - lastSend s1 \<ge> SEND_INTERVAL_MS
                then (if wifi w (uptime s') then sendSensorData dr w s'
                      else println ''WiFi not connected. Skipping.'' s')
                else s1)"
    unfolding loop_def Let_def s1_def s'_def by (rule refl)
  consider (idle) "\<not> millis s1 - lastSend s1 \<ge> SEND_INTERVAL_MS"
    | (send) "millis s1 - lastSend s1 \<ge> SEND_INTERVAL_MS" "wifi w (uptime s')"
    | (skip) "millis s1 - lastSend s1 \<ge> SEND_INTERVAL_MS" "\<not> wifi w (uptime s')"
    by blast
  then have "uptime s1 \<le> uptime (loop dr w s)
   \<and> begins (loop dr w s) = begins s1
   \<and> lastWifiAttempt (loop dr w s) = lastWifiAttempt s1"
  proof cases
    case idle
    then have "loop dr w s = delay 10 s1" by (simp only: l if_False)
    then show ?thesis by (simp add: delay_def)
  next
    case send
    then have "loop dr w s = delay 10 (sendSensorData dr w s')" by (simp only: l if_True)
    then show ?thesis
      using sendSensorData_frame [of s' dr w] s'f by (simp add: delay_def)
  next
    case skip
    then have "loop dr w s = delay 10 (println ''WiFi not connected. Skipping.'' s')"
      by (simp only: l if_True if_False)
    then show ?thesis
      using s'f by (simp add: delay_def println_def)
  qed
  then show ?thesis by (simp only: s1_def)
qed

lemma backoff_inv_loop:
  assumes "backoff_inv s"
  shows "backoff_inv (loop dr w s)"
proof -
  have i: "backoff_inv (reconnectIfNeeded w s)"
    using assms by (rule backoff_inv_reconnect)
  have f: "uptime (reconnectIfNeeded w s) \<le> uptime (loop dr w s)"
    "begins (loop dr w s) = begins (reconnectIfNeeded w s)"
    "lastWifiAttempt (loop dr w s) = lastWifiAttempt (reconnectIfNeeded w s)"
    using loop_frame [of w s dr] by blast+
  show ?thesis
    by (rule backoff_inv_frame [OF i f])
qed

lemma backoff_inv_act:
  assumes "backoff_inv s"
  shows "backoff_inv (act dr w s a)"
proof (cases a)
  case Tick
  with assms show ?thesis by (simp add: backoff_inv_loop)
next
  case (Elapse d)
  have "backoff_inv (delay d s)"
    using assms by (rule backoff_inv_frame) (simp_all add: delay_def)
  with Elapse show ?thesis by simp
qed

lemma backoff_inv_exec: "backoff_inv s \<Longrightarrow> backoff_inv (exec dr w s as)"
  unfolding exec_def by (induction as arbitrary: s) (simp_all add: backoff_inv_act)

text \<open>
  C5 (amended). In every execution (\<^verbatim>\<open>setup()\<close> at any boot offset, then any sequence of
  loop iterations and pauses) any two connection attempts made by \<open>reconnectIfNeeded\<close> are
  at least \<open>WIFI_RECONNECT_INTERVAL_MS\<close> = 5000 ms apart, none of them is made before 5000 ms
  of uptime, and \<open>reconnectIfNeeded\<close> never calls \<^verbatim>\<open>WiFi.begin\<close> while less than the interval
  has elapsed since the attempt recorded in \<open>lastWifiAttempt\<close>. The attempt of \<open>setupWiFi\<close>
  is not recorded and not covered.
\<close>

theorem reconnect_attempts_spaced:
  "spaced (unat WIFI_RECONNECT_INTERVAL_MS)
      (reconnect_times (exec dr w (setup_sketch dr w (boot t0)) as))
   \<and> list_all (\<lambda>t. unat WIFI_RECONNECT_INTERVAL_MS \<le> t)
      (reconnect_times (exec dr w (setup_sketch dr w (boot t0)) as))
   \<and> unat WIFI_RECONNECT_INTERVAL_MS = 5000
   \<and> (millis s - lastWifiAttempt s < WIFI_RECONNECT_INTERVAL_MS
        \<longrightarrow> begins (reconnectIfNeeded w s) = begins s)"
proof -
  have "backoff_inv (exec dr w (setup_sketch dr w (boot t0)) as)"
    by (intro backoff_inv_exec backoff_inv_setup)
  then show ?thesis
    by (simp add: backoff_inv_def reconnectIfNeeded_def Let_def WIFI_RECONNECT_INTERVAL_MS_def)
qed

lemmas edge_eval = example_world_def boot_def setup_sketch_def setupWiFi_def setupWiFi_wait.simps
  println_def delay_def millis_def Let_def loop_def reconnectIfNeeded_def sendSensorData_def
  exec_def WIFI_RECONNECT_INTERVAL_MS_def SEND_INTERVAL_MS_def attempt_times_def reconnect_times_def

subsection \<open>The fallback timestamp of part_001\<close>

lemma is_digit_digit: "k < 10 \<Longrightarrow> is_digit (digit k)"
  unfolding is_digit_def digit_def by (rule nth_mem) simp

lemma pad2_two_digits:
  assumes "n < 100"
  shows "pad2 n = [digit (n div 10), digit (n mod 10)]"
proof (cases "n < 10")
  case True
  then show ?thesis by (simp add: pad2_def digit_def)
next
  case False
  with assms have "n div 10 < 10" by simp
  then have "dec (n div 10) = [digit (n div 10)]" by simp
  with False show ?thesis
    by (simp add: pad2_def dec.simps [of n])
qed

lemma fallback_shape:
  assumes "a < 100" "b < 100" "c < 100"
  shows "iso_shape (''1970-01-01T'' @ pad2 a @ '':'' @ pad2 b @ '':'' @ pad2 c)"
    and "length (''1970-01-01T'' @ pad2 a @ '':'' @ pad2 b @ '':'' @ pad2 c) = 19"
proof -
  have d: "is_digit (digit (a div 10))" "is_digit (digit (a mod 10))"
    "is_digit (digit (b div 10))" "is_digit (digit (b mod 10))"
    "is_digit (digit (c div 10))" "is_digit (digit (c mod 10))"
    using assms by (simp_all add: is_digit_digit)
  have c: "is_digit CHR ''0''" "is_digit CHR ''1''" "is_digit CHR ''7''" "is_digit CHR ''9''"
    by (simp_all add: is_digit_def)
  show "iso_shape (''1970-01-01T'' @ pad2 a @ '':'' @ pad2 b @ '':'' @ pad2 c)"
    using d c by (simp add: iso_shape_def pad2_two_digits assms)
  show "length (''1970-01-01T'' @ pad2 a @ '':'' @ pad2 b @ '':'' @ pad2 c) = 19"
    by (simp add: pad2_two_digits assms)
qed

lemma ntp_wait_uninit:
  assumes "now \<le> 1000" "start = word_of_nat base" "uptime s = base + k" "k < 2200"
    and "\<forall>t. base \<le> t \<and> t < base + 2200 \<longrightarrow> wall w t \<le> 1000"
  shows "fst (ntp_wait w start now s) \<le> 1000"
  using assms
proof (induction w start now s arbitrary: k rule: ntp_wait.induct)
  case (1 w start now s)
  show ?case
  proof (cases "millis s - start < 2000")
    case False
    with "1.prems"(1) show ?thesis by (simp add: ntp_wait.simps [of w start now s])
  next
    case True
    let ?s1 = "delay 200 s"
    have "millis s - start = (word_of_nat k :: ulong)"
      using "1.prems"(2,3) by (simp add: millis_def)
    with True have "unat (word_of_nat k :: ulong) < 2000"
      by (simp add: word_less_nat_alt)
    moreover have "unat (word_of_nat k :: ulong) = k"
      using "1.prems"(4) by (simp add: unat_of_nat)
    ultimately have k: "k < 2000" by simp
    have u1: "uptime ?s1 = base + (k + 200)"
      using "1.prems"(3) by (simp add: delay_def)
    have w1: "wall w (uptime ?s1) \<le> 1000"
      using "1.prems"(5) k unfolding u1 by simp
    then have nb: "\<not> wall w (uptime ?s1) > 1000" by simp
    have "fst (ntp_wait w start (wall w (uptime ?s1)) ?s1) \<le> 1000"
      using k by (intro "1.IH" [OF True refl refl nb w1 "1.prems"(2) u1 _ "1.prems"(5)]) simp
    then show ?thesis
      using True nb by (simp add: ntp_wait.simps [of w start now s] Let_def)
  qed
qed

lemma getIsoTimestamp_uninitialized:
  assumes "\<forall>t. uptime s \<le> t \<and> t < uptime s + 2200 \<longrightarrow> wall w t \<le> 1000"
  shows "fst (getIsoTimestamp w s) = fallback_timestamp (uptime (snd (getIsoTimestamp w s)))
    \<and> iso_shape (fst (getIsoTimestamp w s))"
proof -
  have n0: "wall w (uptime s) \<le> 1000" using assms by simp
  obtain now s1 where n: "ntp_wait w (millis s) (wall w (uptime s)) s = (now, s1)"
    by (cases "ntp_wait w (millis s) (wall w (uptime s)) s") auto
  have "fst (ntp_wait w (millis s) (wall w (uptime s)) s) \<le> 1000"
    by (rule ntp_wait_uninit [where k = 0 and base = "uptime s", OF n0 _ _ _ assms])
       (simp_all add: millis_def)
  then have le: "now \<le> 1000" by (simp add: n)
  define sec where "sec = (uptime s1 mod 2 ^ 32) div 1000"
  have um: "unat (millis s1) = uptime s1 mod 2 ^ 32"
    by (simp add: millis_def unat_of_nat)
  have hh: "unat ((millis s1 div 1000 div 3600) mod 24) = (sec div 3600) mod 24"
    and mm: "unat ((millis s1 div 1000 div 60) mod 60) = (sec div 60) mod 60"
    and ss: "unat ((millis s1 div 1000) mod 60) = sec mod 60"
    by (simp_all add: unat_div unat_mod um sec_def)
  let ?str = "''1970-01-01T'' @ pad2 ((sec div 3600) mod 24) @ '':'' @ pad2 ((sec div 60) mod 60)
           @ '':'' @ pad2 (sec mod 60)"
  have sh: "iso_shape ?str" and len: "length ?str = 19"
    by (rule fallback_shape; simp)+
  have tk: "take 31 ?str = ?str"
    using len by (intro take_all) simp
  have fb: "snprintf_fb ((millis s1 div 1000 div 3600) mod 24) ((millis s1 div 1000 div 60) mod 60)
      ((millis s1 div 1000) mod 60) = ?str"
    unfolding snprintf_fb_def hh mm ss by (rule tk)
  have g: "getIsoTimestamp w s = (?str, s1)"
    unfolding getIsoTimestamp_def using n0 le
    by (simp add: n Let_def fb)
  show ?thesis
    using sh by (simp add: g fallback_timestamp_def Let_def sec_def)
qed

subsection \<open>The timestamp of part_002\<close>

lemma is_digit_digit_mod: "is_digit (digit (n mod 10))"
  by (rule is_digit_digit) simp

lemma dec_all_digits: "list_all is_digit (dec n)"
proof (induction n rule: dec.induct)
  case (1 n)
  show ?case
  proof (cases "n < 10")
    case True
    then show ?thesis by (simp add: is_digit_digit)
  next
    case False
    with "1.IH" show ?thesis
      by (simp add: dec.simps [of n] is_digit_digit_mod)
  qed
qed

lemma shape_match_nth:
  "shape_match p s \<Longrightarrow> i < length p \<Longrightarrow> p ! i \<noteq> CHR ''d'' \<Longrightarrow>
     i < length s \<and> s ! i = p ! i"
proof (induction p s arbitrary: i rule: shape_match.induct)
  case (2 p ps c cs)
  then show ?case by (cases i) (auto split: if_splits)
qed simp_all

lemma digits_not_iso_shape:
  assumes "list_all is_digit s"
  shows "\<not> iso_shape s"
proof
  assume "iso_shape s"
  then have "4 < length s \<and> s ! 4 = CHR ''-''"
    unfolding iso_shape_def using shape_match_nth [of "''dddd-dd-ddTdd:dd:dd''" s 4] by simp
  with assms have "is_digit CHR ''-''"
    by (metis list_all_length)
  then show False by (simp add: is_digit_def)
qed

lemma getIsoTimestamp_part002_uninitialized:
  assumes "wall w (uptime s) \<le> 1000"
  shows "fst (getIsoTimestamp_part002 w s) = dec (unat (millis s))
    \<and> \<not> iso_shape (fst (getIsoTimestamp_part002 w s))"
  using assms digits_not_iso_shape [OF dec_all_digits]
  by (simp add: getIsoTimestamp_part002_def Let_def del: dec.simps)

lemma getIsoTimestamp_snd:
  "wall w (uptime s) \<le> 1000 \<Longrightarrow>
     snd (getIsoTimestamp w s) = snd (ntp_wait w (millis s) (wall w (uptime s)) s)"
  by (simp add: getIsoTimestamp_def Let_def split: prod.splits)

text \<open>
  C1. With the wall clock never initialised and an uptime of 6014 ms, \<open>getIsoTimestamp\<close> of
  part_002 returns the tick counter \<^verbatim>\<open>6014\<close>, which has not the layout
  \<^verbatim>\<open>YYYY-MM-DDTHH:MM:SS\<close>, and \<open>sendSensorData\<close> posts it; \<open>getIsoTimestamp\<close> of part_001 waits
  until 8014 ms and returns \<^verbatim>\<open>1970-01-01T00:00:08\<close>. (In general: \<open>getIsoTimestamp_uninitialized\<close>
  for part_001, \<open>getIsoTimestamp_part002_uninitialized\<close> for part_002.)
\<close>

theorem part002_timestamp_is_raw_millis:
  "fst (getIsoTimestamp_part002 unsynced_world (boot 6014)) = ''6014''
   \<and> \<not> iso_shape ''6014''
   \<and> posts (sendSensorData Part002 unsynced_world (boot 6014))
       = [json_body unsynced_world ''6014'' (Num 21.5) (Num 40)]
   \<and> fst (getIsoTimestamp unsynced_world (boot 6014)) = ''1970-01-01T00:00:08''
   \<and> iso_shape ''1970-01-01T00:00:08''"
proof -
  have 1: "getIsoTimestamp_part002 unsynced_world (boot 6014) = (''6014'', boot 6014)"
    by (simp add: getIsoTimestamp_part002_def unsynced_world_def boot_def millis_def digit_def)
  have 2: "\<not> iso_shape ''6014''"
    by (simp add: iso_shape_def)
  have 3: "posts (sendSensorData Part002 unsynced_world (boot 6014))
       = [json_body unsynced_world ''6014'' (Num 21.5) (Num 40)]"
    unfolding sendSensorData_def getIsoTimestamp_of.simps 1
    by (simp add: unsynced_world_def boot_def println_def Let_def)
  have u: "\<forall>t. uptime (boot 6014) \<le> t \<and> t < uptime (boot 6014) + 2200 \<longrightarrow> wall unsynced_world t \<le> 1000"
    by (simp add: unsynced_world_def)
  have "wall unsynced_world (uptime (boot 6014)) \<le> 1000"
    by (simp add: unsynced_world_def)
  then have "snd (getIsoTimestamp unsynced_world (boot 6014))
      = snd (ntp_wait unsynced_world (millis (boot 6014)) (wall unsynced_world (uptime (boot 6014))) (boot 6014))"
    by (rule getIsoTimestamp_snd)
  also have "\<dots> = (boot 6014)\<lparr>uptime := 8014\<rparr>"
    by (simp add: ntp_wait.simps unsynced_world_def boot_def millis_def delay_def Let_def)
  finally have e: "uptime (snd (getIsoTimestamp unsynced_world (boot 6014))) = 8014"
    by simp
  have f: "fallback_timestamp 8014 = ''1970-01-01T00:00:08''"
    by (simp add: fallback_timestamp_def pad2_def digit_def)
  have 4: "fst (getIsoTimestamp unsynced_world (boot 6014)) = ''1970-01-01T00:00:08''"
    using getIsoTimestamp_uninitialized [OF u] by (simp add: e f)
  have 5: "iso_shape ''1970-01-01T00:00:08''"
    by (simp add: iso_shape_def is_digit_def)
  from 1 2 3 4 5 show ?thesis by simp
qed

subsection \<open>Backoff: the attempt made by setupWiFi\<close>

text \<open>Boot at 200 ms, WiFi up from 4900 ms to 5000 ms: \<open>setupWiFi\<close> attempts at 200 ms, the
  second loop iteration attempts at 5010 ms, 4810 ms later.\<close>

theorem setup_attempt_not_recorded_counterexample:
  "attempt_times (exec Part001 example_world (setup_sketch Part001 example_world (boot 200)) [Tick, Tick])
     = [5010, 200]
   \<and> \<not> spaced (unat WIFI_RECONNECT_INTERVAL_MS)
        (attempt_times (exec Part001 example_world (setup_sketch Part001 example_world (boot 200)) [Tick, Tick]))"
proof -
  have "attempt_times (exec Part001 example_world (setup_sketch Part001 example_world (boot 200)) [Tick, Tick])
     = [5010, 200]"
    by (simp add: edge_eval)
  then show ?thesis by (simp add: WIFI_RECONNECT_INTERVAL_MS_def)
qed

theorem reconnect_attempts_spaced_witness:
  "reconnect_times (exec Part001 example_world (setup_sketch Part001 example_world (boot 200))
       [Tick, Tick, Elapse 5000, Tick]) = [10020, 5010]
   \<and> spaced (unat WIFI_RECONNECT_INTERVAL_MS) [10020, 5010]
   \<and> millis (boot 4999) - lastWifiAttempt (boot 4999) < WIFI_RECONNECT_INTERVAL_MS
   \<and> begins (reconnectIfNeeded example_world (boot 4999)) = begins (boot 4999)"
proof -
  have e: "reconnect_times (exec Part001 example_world (setup_sketch Part001 example_world (boot 200))
       [Tick, Tick, Elapse 5000, Tick]) = [10020, 5010]"
    by (simp add: edge_eval)
  have h: "millis (boot 4999) - lastWifiAttempt (boot 4999) < WIFI_RECONNECT_INTERVAL_MS"
    by (simp add: millis_def boot_def WIFI_RECONNECT_INTERVAL_MS_def)
  from reconnect_attempts_spaced [of Part001 example_world 200 "[Tick, Tick, Elapse 5000, Tick]"
      "boot 4999"] e h
  show ?thesis by simp
qed

lemma reconnect_keeps:
  "uptime (reconnectIfNeeded w s) = uptime s \<and> lastSend (reconnectIfNeeded w s) = lastSend s
   \<and> posts (reconnectIfNeeded w s) = posts s \<and> millis (reconnectIfNeeded w s) = millis s"
  by (simp add: reconnectIfNeeded_def Let_def println_def millis_def)

subsection \<open>An invalid sensor reading\<close>

text \<open>
  C6. When the humidity or the temperature read at a tick is NaN, \<open>sendSensorData\<close> (in
  both drafts) only writes the line \<^verbatim>\<open>DHT read failed.\<close> to the serial log: nothing is
  posted by it or by the loop iteration around it, and the iteration leaves the timing state
  as every iteration does: uptime advanced by the 10 ms delay, \<open>lastSend\<close> set to the tick's
  \<^verbatim>\<open>millis()\<close> if the send was due, \<open>lastWifiAttempt\<close> as \<open>reconnectIfNeeded\<close> left it.
\<close>

theorem invalid_reading_sends_nothing:
  assumes "isnan (humidity w (uptime s)) \<or> isnan (temperature w (uptime s))"
  shows "sendSensorData dr w s = println ''DHT read failed.'' s
    \<and> posts (sendSensorData dr w s) = posts s
    \<and> posts (loop dr w s) = posts s
    \<and> uptime (loop dr w s) = uptime s + 10
    \<and> lastSend (loop dr w s)
        = (if millis s - lastSend s \<ge> SEND_INTERVAL_MS then millis s else lastSend s)
    \<and> lastWifiAttempt (loop dr w s) = lastWifiAttempt (reconnectIfNeeded w s)"
proof -
  have send: "\<And>s'. uptime s' = uptime s \<Longrightarrow> sendSensorData dr w s' = println ''DHT read failed.'' s'"
    using assms by (auto simp: sendSensorData_def Let_def)
  define s1 where "s1 = reconnectIfNeeded w s"
  define s' where "s' = s1\<lparr>lastSend := millis s1\<rparr>"
  have k: "uptime s1 = uptime s" "lastSend s1 = lastSend s" "posts s1 = posts s" "millis s1 = millis s"
    using reconnect_keeps [of w s] by (simp_all add: s1_def)
  have u': "uptime s' = uptime s" by (simp add: s'_def k)
  have l: "loop dr w s =
      delay 10 (if millis s1 - lastSend s1 \<ge> SEND_INTERVAL_MS
                then (if wifi w (uptime s') then sendSensorData dr w s'
                      else println ''WiFi not connected. Skipping.'' s')
                else s1)"
    unfolding loop_def Let_def s1_def s'_def by (rule refl)
  have l2: "loop dr w s =
      delay 10 (if millis s - lastSend s \<ge> SEND_INTERVAL_MS
                then (if wifi w (uptime s) then println ''DHT read failed.'' s'
                      else println ''WiFi not connected. Skipping.'' s')
                else s1)"
    unfolding l by (simp only: send [OF u'] k u')
  have a: "posts (loop dr w s) = posts s" "uptime (loop dr w s) = uptime s + 10"
    "lastSend (loop dr w s)
        = (if millis s - lastSend s \<ge> SEND_INTERVAL_MS then millis s else lastSend s)"
    "lastWifiAttempt (loop dr w s) = lastWifiAttempt s1"
    unfolding l2 by (simp_all add: delay_def println_def s'_def k)
  show ?thesis
    using a send [of s] by (simp add: println_def s1_def)
qed

theorem invalid_reading_sends_nothing_witness:
  "(isnan (humidity example_world (uptime (setup_sketch Part001 example_world (boot 200))))
      \<or> isnan (temperature example_world (uptime (setup_sketch Part001 example_world (boot 200)))))
   \<and> posts (loop Part001 example_world (setup_sketch Part001 example_world (boot 200))) = []
   \<and> uptime (loop Part001 example_world (setup_sketch Part001 example_world (boot 200))) = 5010
   \<and> lastSend (loop Part001 example_world (setup_sketch Part001 example_world (boot 200))) = 5000
   \<and> last (serial (loop Part001 example_world (setup_sketch Part001 example_world (boot 200))))
       = ''DHT read failed.''"
proof -
  let ?s = "setup_sketch Part001 example_world (boot 200)"
  have h: "isnan (humidity example_world (uptime ?s)) \<or> isnan (temperature example_world (uptime ?s))"
    by (simp add: example_world_def)
  have e: "uptime ?s = 5000" "posts ?s = []" "lastSend ?s = 0"
    by (simp_all add: edge_eval)
  have s: "last (serial (loop Part001 example_world ?s)) = ''DHT read failed.''"
    by (simp add: edge_eval)
  from invalid_reading_sends_nothing [OF h, of Part001] h e s
  show ?thesis by (simp add: millis_def SEND_INTERVAL_MS_def)
qed

end
